(* ===== verification/Rem_Prelude.thy ===== *)
theory Rem_Prelude
  imports Main "HOL-Library.Word"
begin

text \<open>
  Shared vocabulary of the development: the machine integer types the Rust code uses, the
  panics it can raise, additions with Rust's two overflow behaviours, and the
  state-and-panic actions in which the handlers are written.

  A Rust function that mutates shared state and may panic is an action
  \<open>('w, 'a) act\<close>, that is a function from the world \<open>'w\<close> to a pair of the result
  (\<open>Inl\<close> a panic, \<open>Inr\<close> the returned value) and the world it leaves. The world is kept
  on a panic too, because a message that was sent before the panic stays sent.
\<close>

section \<open>Machine integers and byte strings\<close>

type_synonym u8 = "8 word"
type_synonym u32 = "32 word"
type_synonym u64 = "64 word"
type_synonym u128 = "128 word"
type_synonym bytes = "u8 list"

section \<open>Panics\<close>

text \<open>
  One constructor per kind of panic of the source: an overflow in a build with overflow
  checks, \<open>assert!\<close>, \<open>unwrap\<close> on \<open>None\<close> or \<open>Err\<close>, \<open>expect\<close> and \<open>panic!\<close> with their
  message, \<open>todo!()\<close> and \<open>unimplemented!()\<close>.
\<close>

datatype panic =
    ArithOverflow
  | AssertFailed
  | UnwrapNone
  | UnwrapErr
  | Expect string
  | PanicMsg string
  | TodoMacro
  | UnimplementedMacro

section \<open>Addition with and without overflow checks\<close>

text \<open>
  \<open>a + b\<close> on an unsigned integer panics on overflow when the build has overflow checks
  (\<open>oc\<close>, cargo's default for the dev profile) and wraps around otherwise (the release
  profile). Every definition that adds takes the flag, so that the theorems hold for both builds.
\<close>

definition checked_plus :: "bool \<Rightarrow> ('n::len) word \<Rightarrow> 'n word \<Rightarrow> panic + 'n word" where
  "checked_plus oc a b =
     (if oc \<and> unat a + unat b \<ge> 2 ^ LENGTH('n) then Inl ArithOverflow else Inr (a + b))"

section \<open>Comparisons\<close>

text \<open>\<open>core::cmp::Ordering\<close>, its \<open>reverse\<close>, and the comparison of a totally ordered type.\<close>

datatype Ordering = Less | Equal | Greater

definition reverse :: "Ordering \<Rightarrow> Ordering" where
  "reverse r = (case r of Less \<Rightarrow> Greater | Equal \<Rightarrow> Equal | Greater \<Rightarrow> Less)"

definition compare :: "'a::linorder \<Rightarrow> 'a \<Rightarrow> Ordering" where
  "compare a b = (if a < b then Less else if a = b then Equal else Greater)"

text \<open>
  The contract the standard library documents for a type that implements \<open>PartialEq\<close>, \<open>Eq\<close>,
  \<open>PartialOrd\<close> and \<open>Ord\<close>: the three comparisons agree, swapping the arguments reverses the
  answer, less-than is transitive, and equal values compare alike. Code that sorts or searches by
  such a type relies on it.
\<close>

locale rust_ord =
  fixes eq :: "'a \<Rightarrow> 'a \<Rightarrow> bool"
    and cmp :: "'a \<Rightarrow> 'a \<Rightarrow> Ordering"
    and partial_cmp :: "'a \<Rightarrow> 'a \<Rightarrow> Ordering option"
  assumes partial_total: "partial_cmp a b = Some (cmp a b)"
    and cmp_eq: "cmp a b = Equal \<longleftrightarrow> eq a b"
    and cmp_reverse: "cmp b a = reverse (cmp a b)"
    and cmp_trans: "cmp a b = Less \<Longrightarrow> cmp b c = Less \<Longrightarrow> cmp a c = Less"
    and cmp_cong: "eq a b \<Longrightarrow> cmp a c = cmp b c"
begin

lemma eq_refl: "eq a a"
  using cmp_reverse[of a a] cmp_eq[of a a] by (cases "cmp a a") (auto simp: reverse_def)

lemma eq_sym: "eq a b \<Longrightarrow> eq b a"
  using cmp_reverse[of b a] cmp_eq[of a b] cmp_eq[of b a] by (simp add: reverse_def)

lemma eq_trans: "eq a b \<Longrightarrow> eq b c \<Longrightarrow> eq a c"
  using cmp_cong[of a b c] cmp_eq by metis

lemma not_less_trans: "cmp a b \<noteq> Greater \<Longrightarrow> cmp b c \<noteq> Greater \<Longrightarrow> cmp a c \<noteq> Greater"
  using cmp_trans[of a b c] cmp_cong[of a b c] cmp_cong[of c b a] cmp_eq eq_sym cmp_reverse
  by (metis Ordering.exhaust Ordering.distinct(1,3,5))

end

text \<open>Comparing by a key of a totally ordered type meets the contract.\<close>

lemma rust_ord_by_key:
  "rust_ord (\<lambda>a b. key a = key b) (\<lambda>a b. compare (key a) (key b)) (\<lambda>a b. Some (compare (key a) (key b)))"
  by unfold_locales (auto simp: compare_def reverse_def split: if_splits)

section \<open>Actions: state passing with panics\<close>

type_synonym ('w, 'a) act = "'w \<Rightarrow> (panic + 'a) \<times> 'w"

definition ret :: "'a \<Rightarrow> ('w, 'a) act" where
  "ret x = (\<lambda>w. (Inr x, w))"

definition abort :: "panic \<Rightarrow> ('w, 'a) act" where
  "abort p = (\<lambda>w. (Inl p, w))"

definition bind :: "('w, 'a) act \<Rightarrow> ('a \<Rightarrow> ('w, 'b) act) \<Rightarrow> ('w, 'b) act" where
  "bind m k = (\<lambda>w. case m w of (Inl p, w') \<Rightarrow> (Inl p, w') | (Inr x, w') \<Rightarrow> k x w')"

definition lift :: "panic + 'a \<Rightarrow> ('w, 'a) act" where
  "lift r = (\<lambda>w. (r, w))"

text \<open>A \<open>for\<close> loop over a vector.\<close>

primrec foreach :: "'a list \<Rightarrow> ('a \<Rightarrow> ('w, unit) act) \<Rightarrow> ('w, unit) act" where
  "foreach [] f = ret ()"
| "foreach (x # xs) f = bind (f x) (\<lambda>_. foreach xs f)"

text \<open>\<open>Result::unwrap\<close> and \<open>Option::expect\<close> inside an action.\<close>

definition unwrap :: "'e + 'a \<Rightarrow> ('w, 'a) act" where
  "unwrap r = (case r of Inl _ \<Rightarrow> abort UnwrapErr | Inr x \<Rightarrow> ret x)"

definition unwrap_opt :: "'a option \<Rightarrow> ('w, 'a) act" where
  "unwrap_opt r = (case r of None \<Rightarrow> abort UnwrapNone | Some x \<Rightarrow> ret x)"

definition expect_opt :: "string \<Rightarrow> 'a option \<Rightarrow> ('w, 'a) act" where
  "expect_opt msg r = (case r of None \<Rightarrow> abort (Expect msg) | Some x \<Rightarrow> ret x)"

section \<open>Shared lemmas\<close>

named_theorems act_simps \<open>evaluation rules for actions\<close>

lemma ret_run [act_simps]: "ret x w = (Inr x, w)"
  by (simp add: ret_def)

lemma abort_run [act_simps]: "abort p w = (Inl p, w)"
  by (simp add: abort_def)

lemma lift_run [act_simps]: "lift r w = (r, w)"
  by (simp add: lift_def)

lemma bind_run [act_simps]:
  "bind m k w = (case m w of (Inl p, w') \<Rightarrow> (Inl p, w') | (Inr x, w') \<Rightarrow> k x w')"
  by (simp add: bind_def)

lemma unwrap_run [act_simps]:
  "unwrap (Inl e) w = (Inl UnwrapErr, w)"
  "unwrap (Inr x) w = (Inr x, w)"
  by (simp_all add: unwrap_def act_simps)

lemma unwrap_opt_run [act_simps]:
  "unwrap_opt None w = (Inl UnwrapNone, w)"
  "unwrap_opt (Some x) w = (Inr x, w)"
  by (simp_all add: unwrap_opt_def act_simps)

lemma expect_opt_run [act_simps]:
  "expect_opt msg None w = (Inl (Expect msg), w)"
  "expect_opt msg (Some x) w = (Inr x, w)"
  by (simp_all add: expect_opt_def act_simps)

lemma unat_u64: "unat (x::u64) < 2 ^ 64"
  using unsigned_less[of x, where ?'a = nat] by simp

text \<open>Unsigned addition: the exact sum where it fits, else a panic or the wrapped sum.\<close>

lemma checked_plus_exact:
  fixes a b :: "('n::len) word"
  assumes "unat a + unat b < 2 ^ LENGTH('n)"
  shows "checked_plus oc a b = Inr (a + b)" and "unat (a + b) = unat a + unat b"
  using assms by (simp_all add: checked_plus_def unat_word_ariths)

lemma checked_plus_wraps: "checked_plus False a b = Inr (a + b)"
  by (simp add: checked_plus_def)

lemma checked_plus_panics:
  fixes a b :: "('n::len) word"
  shows "2 ^ LENGTH('n) \<le> unat a + unat b \<Longrightarrow> checked_plus True a b = Inl ArithOverflow"
  by (simp add: checked_plus_def)

lemma checked_plus_Inr:
  fixes a b c :: "('n::len) word"
  shows "checked_plus oc a b = Inr c \<Longrightarrow> c = a + b"
  by (auto simp: checked_plus_def split: if_splits)

text \<open>A property of the world that every iteration keeps is kept by the whole loop.\<close>

lemma foreach_invariant:
  assumes step: "\<And>x w r w'. x \<in> set xs \<Longrightarrow> P w \<Longrightarrow> f x w = (r, w') \<Longrightarrow> P w'"
    and start: "P w" and run: "foreach xs f w = (r, w')"
  shows "P w'"
  using assms
proof (induction xs arbitrary: w)
  case Nil
  then show ?case by (simp add: act_simps)
next
  case (Cons x xs)
  obtain r1 w1 where one: "f x w = (r1, w1)" by fastforce
  with Cons.prems have w1: "P w1" by (meson list.set_intros(1))
  show ?case
  proof (cases r1)
    case (Inl p)
    with one w1 Cons.prems(3) show ?thesis by (simp add: act_simps)
  next
    case (Inr u)
    with one Cons.prems(3) have "foreach xs f w1 = (r, w')" by (simp add: act_simps)
    with w1 Cons.prems(1) show ?thesis by (metis Cons.IH list.set_intros(2))
  qed
qed

text \<open>A loop whose iterations all succeed is the fold of their effects.\<close>

lemma foreach_fold:
  assumes "\<And>x w. x \<in> set xs \<Longrightarrow> P w \<Longrightarrow> f x w = (Inr (), g x w) \<and> P (g x w)"
    and "P w"
  shows "foreach xs f w = (Inr (), fold g xs w)"
  using assms by (induction xs arbitrary: w) (auto simp: act_simps)

lemma foreach_append:
  "foreach (xs @ ys) f w =
     (case foreach xs f w of (Inl p, w') \<Rightarrow> (Inl p, w') | (Inr _, w') \<Rightarrow> foreach ys f w')"
  by (induction xs arbitrary: w) (auto simp: act_simps split: prod.splits sum.splits)

section \<open>What an action may do to the world\<close>

text \<open>
  \<open>within R m\<close>: whatever the outcome, the action moves the world only along \<open>R\<close>. For a
  reflexive and transitive \<open>R\<close> this is compositional.
\<close>

definition within :: "('w \<Rightarrow> 'w \<Rightarrow> bool) \<Rightarrow> ('w, 'a) act \<Rightarrow> bool" where
  "within R m \<longleftrightarrow> (\<forall>w. R w (snd (m w)))"

named_theorems within_intros \<open>composition rules for within\<close>

lemma withinD: "within R m \<Longrightarrow> m w = (r, w') \<Longrightarrow> R w w'"
  by (metis within_def snd_conv)

lemma within_ret [within_intros]: "reflp R \<Longrightarrow> within R (ret x)"
  by (simp add: within_def act_simps reflpD)

lemma within_abort [within_intros]: "reflp R \<Longrightarrow> within R (abort p)"
  by (simp add: within_def act_simps reflpD)

lemma within_lift [within_intros]: "reflp R \<Longrightarrow> within R (lift r)"
  by (simp add: within_def act_simps reflpD)

lemma within_unwrap [within_intros]: "reflp R \<Longrightarrow> within R (unwrap r)"
  by (cases r) (simp_all add: within_def act_simps reflpD)

lemma within_bind [within_intros]:
  assumes "reflp R" and "transp R" and "within R m" and "\<And>x. within R (k x)"
  shows "within R (bind m k)"
  unfolding within_def
proof
  fix w
  obtain r w1 where m: "m w = (r, w1)" by fastforce
  then have 1: "R w w1" using assms(3) by (rule withinD[rotated])
  show "R w (snd (bind m k w))"
  proof (cases r)
    case (Inl p)
    with m 1 show ?thesis by (simp add: act_simps)
  next
    case (Inr x)
    have "R w1 (snd (k x w1))" using assms(4) by (simp add: within_def)
    with m 1 Inr assms(2) show ?thesis by (auto simp: act_simps dest: transpD)
  qed
qed

lemma within_foreach [within_intros]:
  assumes "reflp R" and "transp R" and "\<And>x. x \<in> set xs \<Longrightarrow> within R (f x)"
  shows "within R (foreach xs f)"
  using assms by (induction xs) (auto intro!: within_intros)

text \<open>\<open>panics_in S m\<close>: if the action panics, it does so with a panic of \<open>S\<close>.\<close>

definition panics_in :: "panic set \<Rightarrow> ('w, 'a) act \<Rightarrow> bool" where
  "panics_in S m \<longleftrightarrow> (\<forall>w p w'. m w = (Inl p, w') \<longrightarrow> p \<in> S)"

named_theorems panics_intros \<open>composition rules for panics_in\<close>

lemma panics_inD: "panics_in S m \<Longrightarrow> m w = (Inl p, w') \<Longrightarrow> p \<in> S"
  by (auto simp: panics_in_def)

lemma panics_in_ret [panics_intros]: "panics_in S (ret x)"
  by (simp add: panics_in_def act_simps)

lemma panics_in_abort [panics_intros]: "p \<in> S \<Longrightarrow> panics_in S (abort p)"
  by (simp add: panics_in_def act_simps)

lemma panics_in_unwrap [panics_intros]: "UnwrapErr \<in> S \<Longrightarrow> panics_in S (unwrap r)"
  by (cases r) (simp_all add: panics_in_def act_simps)

lemma panics_in_bind [panics_intros]:
  "panics_in S m \<Longrightarrow> (\<And>x. panics_in S (k x)) \<Longrightarrow> panics_in S (bind m k)"
  by (fastforce simp: panics_in_def act_simps split: prod.splits sum.splits)

lemma panics_in_foreach [panics_intros]:
  "(\<And>x. x \<in> set xs \<Longrightarrow> panics_in S (f x)) \<Longrightarrow> panics_in S (foreach xs f)"
  by (induction xs) (auto intro!: panics_intros)

end
