(* ===== verification/Signing_Scheme.thy ===== *)
theory Signing_Scheme
  imports Rem_Prelude "HOL-Library.List_Lexorder"
begin

text \<open>
  The Ed25519 wrapper of \<open>chain/context/signing_scheme.rs\<close>.

  The crate \<open>ed25519_consensus\<close> is not part of the repository: it is the parameter \<open>E\<close>, a
  record of the functions the wrapper calls. Its signatures, signing keys and verification keys
  are represented by their byte encodings. What the wrapper relies on are the predicates
  \<open>ed_correct\<close> (a signature made with a key verifies under that key's verification key) and
  \<open>ed_codec\<close> (signatures are 64 bytes, and 64 bytes decode to the signature they encode).
\<close>

section \<open>Definitions\<close>

datatype ed_error = EdError

record ed25519 =
  ed_new :: "bytes \<Rightarrow> bytes" \<comment> \<open>\<open>SigningKey::new\<close>, from the random bytes it draws\<close>
  ed_from_seed :: "bytes \<Rightarrow> bytes" \<comment> \<open>\<open>SigningKey::from([u8; 32])\<close>\<close>
  ed_verification_key :: "bytes \<Rightarrow> bytes" \<comment> \<open>\<open>SigningKey::verification_key\<close>\<close>
  ed_sign :: "bytes \<Rightarrow> bytes \<Rightarrow> bytes" \<comment> \<open>\<open>SigningKey::sign\<close>: key, message\<close>
  ed_verify :: "bytes \<Rightarrow> bytes \<Rightarrow> bytes \<Rightarrow> bool" \<comment> \<open>\<open>VerificationKey::verify\<close>: key, signature, message\<close>
  ed_signature_try_from :: "bytes \<Rightarrow> ed_error + bytes" \<comment> \<open>\<open>Signature::try_from\<close>\<close>

datatype Signature = Signature (sig_inner: bytes)
datatype PrivateKey = PrivateKey (priv_inner: bytes)
datatype PublicKey = PublicKey (pub_inner: bytes)

definition inner :: "Signature \<Rightarrow> bytes" where
  "inner s = sig_inner s"

definition Signature_from :: "bytes \<Rightarrow> Signature" where
  "Signature_from raw = Signature raw"

definition as_bytes :: "Signature \<Rightarrow> bytes" where
  "as_bytes s = sig_inner s"

definition signature_try_from :: "ed25519 \<Rightarrow> bytes \<Rightarrow> ed_error + Signature" where
  "signature_try_from E bs = map_sum id Signature (ed_signature_try_from E bs)"

definition decode_signature :: "ed25519 \<Rightarrow> bytes \<Rightarrow> ed_error + Signature" where
  "decode_signature E bs = signature_try_from E bs"

definition encode_signature :: "Signature \<Rightarrow> bytes" where
  "encode_signature s = as_bytes s"

definition PrivateKey_generate :: "ed25519 \<Rightarrow> bytes \<Rightarrow> PrivateKey" where
  "PrivateKey_generate E rng = PrivateKey (ed_new E rng)"

definition generate_keypair :: "ed25519 \<Rightarrow> bytes \<Rightarrow> PrivateKey" where
  "generate_keypair E rng = PrivateKey_generate E rng"

definition PrivateKey_from :: "ed25519 \<Rightarrow> bytes \<Rightarrow> PrivateKey" where
  "PrivateKey_from E seed = PrivateKey (ed_from_seed E seed)"

definition PublicKey_new :: "bytes \<Rightarrow> PublicKey" where
  "PublicKey_new key = PublicKey key"

definition public_key :: "ed25519 \<Rightarrow> PrivateKey \<Rightarrow> PublicKey" where
  "public_key E k = PublicKey_new (ed_verification_key E (priv_inner k))"

definition verifying_key :: "ed25519 \<Rightarrow> PrivateKey \<Rightarrow> PublicKey" where
  "verifying_key E k = public_key E k"

definition sign :: "ed25519 \<Rightarrow> PrivateKey \<Rightarrow> bytes \<Rightarrow> Signature" where
  "sign E k msg = Signature (ed_sign E (priv_inner k) msg)"

definition try_sign :: "ed25519 \<Rightarrow> PrivateKey \<Rightarrow> bytes \<Rightarrow> ed_error + Signature" where
  "try_sign E k msg = Inr (Signature (ed_sign E (priv_inner k) msg))"

definition verify :: "ed25519 \<Rightarrow> PublicKey \<Rightarrow> bytes \<Rightarrow> Signature \<Rightarrow> ed_error + unit" where
  "verify E k msg s = (if ed_verify E (pub_inner k) (inner s) msg then Inr () else Inl EdError)"

text \<open>\<open>Ord\<close> and \<open>PartialOrd\<close>: the encodings are compared lexicographically.\<close>

definition signature_cmp :: "Signature \<Rightarrow> Signature \<Rightarrow> Ordering" where
  "signature_cmp s t = compare (as_bytes s) (as_bytes t)"

definition signature_partial_cmp :: "Signature \<Rightarrow> Signature \<Rightarrow> Ordering option" where
  "signature_partial_cmp s t = Some (signature_cmp s t)"

text \<open>The same order as an instance of the library's class.\<close>

instantiation Signature :: linorder
begin

definition less_eq_Signature :: "Signature \<Rightarrow> Signature \<Rightarrow> bool" where
  "less_eq_Signature s t \<longleftrightarrow> as_bytes s \<le> as_bytes t"

definition less_Signature :: "Signature \<Rightarrow> Signature \<Rightarrow> bool" where
  "less_Signature s t \<longleftrightarrow> as_bytes s < as_bytes t"

instance
  by standard
    (auto simp: less_eq_Signature_def less_Signature_def as_bytes_def Signature.expand)

end

section \<open>What the wrapper relies on\<close>

definition ed_correct :: "ed25519 \<Rightarrow> bool" where
  "ed_correct E \<longleftrightarrow> (\<forall>k m. ed_verify E (ed_verification_key E k) (ed_sign E k m) m)"

definition ed_codec :: "ed25519 \<Rightarrow> bool" where
  "ed_codec E \<longleftrightarrow>
     (\<forall>k m. length (ed_sign E k m) = 64) \<and>
     (\<forall>bs. ed_signature_try_from E bs = (if length bs = 64 then Inr bs else Inl EdError))"

section \<open>Lemmas\<close>

lemma as_bytes_inject [simp]: "as_bytes s = as_bytes t \<longleftrightarrow> s = t"
  by (cases s; cases t) (simp add: as_bytes_def)

interpretation signature_ord: rust_ord "(=)" signature_cmp signature_partial_cmp
  using rust_ord_by_key[of as_bytes] unfolding rust_ord_def signature_cmp_def signature_partial_cmp_def as_bytes_inject
  by blast

lemma signature_cmp_less: "signature_cmp s t = Less \<longleftrightarrow> s < t"
  by (simp add: signature_cmp_def compare_def less_Signature_def)

lemma verify_sign:
  assumes "ed_correct E"
  shows "verify E (public_key E k) m (sign E k m) = Inr ()"
  using assms by (simp add: ed_correct_def verify_def inner_def public_key_def PublicKey_new_def sign_def)

lemma decode_encode_sign:
  assumes "ed_codec E"
  shows "decode_signature E (encode_signature (sign E k m)) = Inr (sign E k m)"
  using assms
  by (simp add: ed_codec_def decode_signature_def signature_try_from_def encode_signature_def
      as_bytes_def sign_def)

lemma decode_signature_length:
  assumes "ed_codec E" and "decode_signature E bs = Inr s"
  shows "length bs = 64" and "encode_signature s = bs"
  using assms
  by (auto simp: ed_codec_def decode_signature_def signature_try_from_def encode_signature_def
      as_bytes_def split: if_splits)

text \<open>A concrete scheme, used to show that the two predicates can hold together.\<close>

definition toy_ed25519 :: ed25519 where
  "toy_ed25519 = \<lparr>ed_new = id, ed_from_seed = id, ed_verification_key = id,
     ed_sign = (\<lambda>k m. take 64 (m @ replicate 64 0)),
     ed_verify = (\<lambda>vk s m. s = take 64 (m @ replicate 64 0)),
     ed_signature_try_from = (\<lambda>bs. if length bs = 64 then Inr bs else Inl EdError)\<rparr>"

lemma toy_ed25519_ok [simp]: "ed_correct toy_ed25519" "ed_codec toy_ed25519"
  by (auto simp: ed_correct_def ed_codec_def toy_ed25519_def)

section \<open>Properties\<close>

text \<open>signatures survive encoding: what \<open>encode_signature\<close> writes for a signature made by \<open>sign\<close>
  decodes to the same signature, and whatever bytes decode at all are 64 bytes and are written back
  unchanged.\<close>

theorem signature_round_trip:
  assumes "ed_codec E"
  shows "decode_signature E (encode_signature (sign E k m)) = Inr (sign E k m) \<and>
    (\<forall>bs s. decode_signature E bs = Inr s \<longrightarrow> length bs = 64 \<and> encode_signature s = bs)"
  using decode_encode_sign[OF assms] decode_signature_length[OF assms] by blast

theorem signature_round_trip_witness:
  "decode_signature toy_ed25519 (encode_signature (sign toy_ed25519 (PrivateKey [1]) [2, 3]))
     = Inr (sign toy_ed25519 (PrivateKey [1]) [2, 3])"
  using signature_round_trip[OF toy_ed25519_ok(2)] by blast

end
