(* ===== verification/Consensus_Context.thy ===== *)
theory Consensus_Context
  imports Signing_Scheme
begin

text \<open>
  The data model of the consensus side: \<open>chain/context.rs\<close> and the files of \<open>chain/context/\<close>
  (addresses, heights, values, peers, peer sets, proposals, votes, the signing provider), and
  \<open>chain/decision.rs\<close>.

  A signed Ethereum transaction (reth's \<open>TransactionSigned\<close>) is opaque to this code and is the
  type variable \<open>'tx\<close>. Of the malachite types, only what the source builds or tests is kept:
  a round is nil or a number, a vote is a prevote or a precommit for nil or for a value.
\<close>

section \<open>Malachite's vocabulary\<close>

datatype Round = RoundNil | RoundSome u32
datatype VoteType = Prevote | Precommit
datatype 'v NilOrVal = NilVal | Val 'v

type_synonym SignedExtension = "bytes \<times> Signature"
type_synonym VotingPower = u64

text \<open>\<open>malachite_core_types::SignedMessage\<close>\<close>

record 'm SignedMessage =
  message :: 'm
  signature :: Signature

section \<open>address.rs\<close>

datatype BasePeerAddress = BasePeerAddress (addr_u32: u32)

definition BasePeerAddress_new :: "u32 \<Rightarrow> BasePeerAddress" where
  "BasePeerAddress_new a = BasePeerAddress a"

text \<open>\<open>From<usize>\<close>: the cast \<open>as u32\<close> keeps the low 32 bits.\<close>

definition BasePeerAddress_from :: "u64 \<Rightarrow> BasePeerAddress" where
  "BasePeerAddress_from v = BasePeerAddress (ucast v)"

instantiation BasePeerAddress :: linorder
begin

definition less_eq_BasePeerAddress :: "BasePeerAddress \<Rightarrow> BasePeerAddress \<Rightarrow> bool" where
  "less_eq_BasePeerAddress a b \<longleftrightarrow> addr_u32 a \<le> addr_u32 b"

definition less_BasePeerAddress :: "BasePeerAddress \<Rightarrow> BasePeerAddress \<Rightarrow> bool" where
  "less_BasePeerAddress a b \<longleftrightarrow> addr_u32 a < addr_u32 b"

instance
  by standard
    (auto simp: less_eq_BasePeerAddress_def less_BasePeerAddress_def BasePeerAddress.expand)

end

section \<open>height.rs\<close>

datatype BaseHeight = BaseHeight (height_u64: u64)

definition default_height :: BaseHeight where
  "default_height = BaseHeight 0"

definition increment_by :: "bool \<Rightarrow> BaseHeight \<Rightarrow> u64 \<Rightarrow> panic + BaseHeight" where
  "increment_by oc h n = map_sum id BaseHeight (checked_plus oc (height_u64 h) n)"

definition decrement_by :: "BaseHeight \<Rightarrow> u64 \<Rightarrow> BaseHeight option" where
  "decrement_by h n =
     (case n \<le> height_u64 h of True \<Rightarrow> Some (BaseHeight (height_u64 h - n)) | False \<Rightarrow> None)"

definition as_u64 :: "BaseHeight \<Rightarrow> u64" where
  "as_u64 h = height_u64 h"

text \<open>\<open>Height::increment\<close>, the trait's default method: one step up.\<close>

definition increment :: "bool \<Rightarrow> BaseHeight \<Rightarrow> panic + BaseHeight" where
  "increment oc h = increment_by oc h 1"

instantiation BaseHeight :: linorder
begin

definition less_eq_BaseHeight :: "BaseHeight \<Rightarrow> BaseHeight \<Rightarrow> bool" where
  "less_eq_BaseHeight a b \<longleftrightarrow> height_u64 a \<le> height_u64 b"

definition less_BaseHeight :: "BaseHeight \<Rightarrow> BaseHeight \<Rightarrow> bool" where
  "less_BaseHeight a b \<longleftrightarrow> height_u64 a < height_u64 b"

instance
  by standard (auto simp: less_eq_BaseHeight_def less_BaseHeight_def BaseHeight.expand)

end

section \<open>value.rs\<close>

datatype BaseValueId = BaseValueId (vid_u64: u64)

record 'tx BaseValue =
  value_id_u64 :: u64
  transactions :: "'tx list"

definition value_id :: "'tx BaseValue \<Rightarrow> BaseValueId" where
  "value_id v = BaseValueId (value_id_u64 v)"

text \<open>\<open>PartialEq\<close> and \<open>Ord\<close> look at the identifier only.\<close>

definition value_eq :: "'tx BaseValue \<Rightarrow> 'tx BaseValue \<Rightarrow> bool" where
  "value_eq a b \<longleftrightarrow> value_id_u64 a = value_id_u64 b"

definition value_cmp :: "'tx BaseValue \<Rightarrow> 'tx BaseValue \<Rightarrow> Ordering" where
  "value_cmp a b = compare (value_id_u64 a) (value_id_u64 b)"

definition value_partial_cmp :: "'tx BaseValue \<Rightarrow> 'tx BaseValue \<Rightarrow> Ordering option" where
  "value_partial_cmp a b = Some (compare (value_id_u64 a) (value_id_u64 b))"

section \<open>peer.rs and peer\_set.rs\<close>

definition BASE_VOTING_POWER :: u64 where
  "BASE_VOTING_POWER = 1"

record BasePeer =
  peer_addr :: BasePeerAddress
  peer_public_key :: PublicKey

definition BasePeer_new :: "u32 \<Rightarrow> PublicKey \<Rightarrow> BasePeer" where
  "BasePeer_new i pk = \<lparr>peer_addr = BasePeerAddress_new i, peer_public_key = pk\<rparr>"

definition address :: "BasePeer \<Rightarrow> BasePeerAddress" where
  "address p = peer_addr p"

definition peer_key :: "BasePeer \<Rightarrow> PublicKey" where
  "peer_key p = peer_public_key p"

definition voting_power :: "BasePeer \<Rightarrow> VotingPower" where
  "voting_power p = BASE_VOTING_POWER"

record BasePeerSet =
  peers :: "BasePeer list"

definition BasePeerSet_new :: "u32 \<Rightarrow> PublicKey \<Rightarrow> BasePeerSet" where
  "BasePeerSet_new sz pk = \<lparr>peers = map (\<lambda>i. BasePeer_new (of_nat i) pk) [0..<unat sz]\<rparr>"

definition count :: "BasePeerSet \<Rightarrow> nat" where
  "count s = length (peers s)"

definition total_voting_power :: "BasePeerSet \<Rightarrow> VotingPower" where
  "total_voting_power s = of_nat (count s)"

definition get_by_address :: "BasePeerSet \<Rightarrow> BasePeerAddress \<Rightarrow> BasePeer option" where
  "get_by_address s a = find (\<lambda>v. peer_addr v = a) (peers s)"

definition get_by_index :: "BasePeerSet \<Rightarrow> nat \<Rightarrow> BasePeer option" where
  "get_by_index s i = (if i < length (peers s) then Some (peers s ! i) else None)"

section \<open>Big-endian encoding of a u64\<close>

definition to_be_bytes :: "u64 \<Rightarrow> bytes" where
  "to_be_bytes x = map (\<lambda>i. ucast (drop_bit (8 * i) x)) (rev [0..<8])"

definition from_be_bytes :: "bytes \<Rightarrow> u64" where
  "from_be_bytes bs = foldl (\<lambda>acc b. acc * 256 + ucast b) 0 bs"

section \<open>proposals.rs\<close>

record 'tx BaseProposal =
  prop_height :: BaseHeight
  prop_value :: "'tx BaseValue"
  prop_proposer :: BasePeerAddress
  prop_round :: Round

definition proposal_to_bytes :: "'tx BaseProposal \<Rightarrow> bytes" where
  "proposal_to_bytes p = to_be_bytes (value_id_u64 (prop_value p))"

text \<open>The derived \<open>PartialEq\<close> compares the fields, the value with its own \<open>eq\<close>.\<close>

definition proposal_eq :: "'tx BaseProposal \<Rightarrow> 'tx BaseProposal \<Rightarrow> bool" where
  "proposal_eq p q \<longleftrightarrow>
     prop_height p = prop_height q \<and> value_eq (prop_value p) (prop_value q) \<and>
     prop_proposer p = prop_proposer q \<and> prop_round p = prop_round q"

definition Proposal_height :: "'tx BaseProposal \<Rightarrow> BaseHeight" where
  "Proposal_height p = prop_height p"

definition Proposal_round :: "'tx BaseProposal \<Rightarrow> Round" where
  "Proposal_round p = prop_round p"

definition Proposal_value :: "'tx BaseProposal \<Rightarrow> 'tx BaseValue" where
  "Proposal_value p = prop_value p"

definition Proposal_take_value :: "'tx BaseProposal \<Rightarrow> 'tx BaseValue" where
  "Proposal_take_value p = prop_value p"

definition pol_round :: "'tx BaseProposal \<Rightarrow> Round" where
  "pol_round p = RoundNil"

definition Proposal_validator_address :: "'tx BaseProposal \<Rightarrow> BasePeerAddress" where
  "Proposal_validator_address p = prop_proposer p"

record BaseProposalPart =
  part_height :: BaseHeight

definition BaseProposalPart_new :: "BaseHeight \<Rightarrow> BaseProposalPart" where
  "BaseProposalPart_new h = \<lparr>part_height = h\<rparr>"

definition is_first :: "BaseProposalPart \<Rightarrow> bool" where
  "is_first p = True"

definition is_last :: "BaseProposalPart \<Rightarrow> panic + bool" where
  "is_last p = Inl UnimplementedMacro"

section \<open>vote.rs\<close>

record BaseVote =
  vote_type :: VoteType
  vote_height :: BaseHeight
  vote_value_id :: "BaseValueId NilOrVal"
  vote_round :: Round
  voter :: BasePeerAddress
  extension :: "SignedExtension option"

definition vote_to_bytes :: "BaseVote \<Rightarrow> bytes" where
  "vote_to_bytes v = to_be_bytes (height_u64 (vote_height v))"

definition Vote_height :: "BaseVote \<Rightarrow> BaseHeight" where
  "Vote_height v = vote_height v"

definition Vote_round :: "BaseVote \<Rightarrow> Round" where
  "Vote_round v = vote_round v"

definition Vote_value :: "BaseVote \<Rightarrow> BaseValueId NilOrVal" where
  "Vote_value v = vote_value_id v"

definition Vote_take_value :: "BaseVote \<Rightarrow> BaseValueId NilOrVal" where
  "Vote_take_value v = vote_value_id v"

definition Vote_vote_type :: "BaseVote \<Rightarrow> VoteType" where
  "Vote_vote_type v = vote_type v"

definition Vote_validator_address :: "BaseVote \<Rightarrow> BasePeerAddress" where
  "Vote_validator_address v = voter v"

definition Vote_extension :: "BaseVote \<Rightarrow> SignedExtension option" where
  "Vote_extension v = extension v"

definition vote_extend :: "BaseVote \<Rightarrow> SignedExtension \<Rightarrow> BaseVote" where
  "vote_extend v e = v\<lparr>extension := Some e\<rparr>"

section \<open>signing\_provider.rs\<close>

record BaseSigningProvider =
  private_key :: PrivateKey

definition BaseSigningProvider_new :: "ed25519 \<Rightarrow> bytes \<Rightarrow> BaseSigningProvider" where
  "BaseSigningProvider_new E rng = \<lparr>private_key = generate_keypair E rng\<rparr>"

definition provider_public_key :: "ed25519 \<Rightarrow> BaseSigningProvider \<Rightarrow> PublicKey" where
  "provider_public_key E sp = public_key E (private_key sp)"

definition sign_vote :: "ed25519 \<Rightarrow> BaseSigningProvider \<Rightarrow> BaseVote \<Rightarrow> BaseVote SignedMessage" where
  "sign_vote E sp v = \<lparr>message = v, signature = sign E (private_key sp) (vote_to_bytes v)\<rparr>"

definition sign_proposal ::
  "ed25519 \<Rightarrow> BaseSigningProvider \<Rightarrow> 'tx BaseProposal \<Rightarrow> 'tx BaseProposal SignedMessage" where
  "sign_proposal E sp p =
     \<lparr>message = p, signature = sign E (private_key sp) (proposal_to_bytes p)\<rparr>"

text \<open>The verification side of the provider is not written yet: every method is \<open>todo!()\<close>.\<close>

definition verify_signed_vote :: "BaseVote \<Rightarrow> Signature \<Rightarrow> PublicKey \<Rightarrow> panic + bool" where
  "verify_signed_vote v s pk = Inl TodoMacro"

definition verify_signed_proposal :: "'tx BaseProposal \<Rightarrow> Signature \<Rightarrow> PublicKey \<Rightarrow> panic + bool" where
  "verify_signed_proposal p s pk = Inl TodoMacro"

definition sign_proposal_part :: "BaseProposalPart \<Rightarrow> panic + BaseProposalPart SignedMessage" where
  "sign_proposal_part p = Inl TodoMacro"

definition verify_signed_proposal_part :: "BaseProposalPart \<Rightarrow> Signature \<Rightarrow> PublicKey \<Rightarrow> panic + bool" where
  "verify_signed_proposal_part p s pk = Inl TodoMacro"

text \<open>\<open>verify_commit_signature\<close> ignores the certificate, the signature and the validator (\<open>todo!()\<close>).\<close>

definition verify_commit_signature :: "'cert \<Rightarrow> 'sig \<Rightarrow> BasePeer \<Rightarrow> panic + ('e + VotingPower)" where
  "verify_commit_signature cert commit_sig validator = Inl TodoMacro"

section \<open>context.rs\<close>

record BaseContext =
  signing_provider :: BaseSigningProvider

definition BaseContext_new :: "ed25519 \<Rightarrow> bytes \<Rightarrow> BaseContext" where
  "BaseContext_new E rng = \<lparr>signing_provider = BaseSigningProvider_new E rng\<rparr>"

definition Context_signing_provider :: "BaseContext \<Rightarrow> BaseSigningProvider" where
  "Context_signing_provider ctx = signing_provider ctx"

definition shared_public_key :: "ed25519 \<Rightarrow> BaseContext \<Rightarrow> PublicKey" where
  "shared_public_key E ctx = provider_public_key E (signing_provider ctx)"

definition select_proposer :: "BasePeerSet \<Rightarrow> BaseHeight \<Rightarrow> Round \<Rightarrow> panic + BasePeer" where
  "select_proposer vs height round =
     (case peers vs of [] \<Rightarrow> Inl (Expect ''no peer found in the validator set'') | p # _ \<Rightarrow> Inr p)"

definition new_proposal ::
  "BaseHeight \<Rightarrow> Round \<Rightarrow> 'tx BaseValue \<Rightarrow> Round \<Rightarrow> BasePeerAddress \<Rightarrow> 'tx BaseProposal" where
  "new_proposal height round val pol_r addr =
     \<lparr>prop_height = height, prop_value = val, prop_proposer = addr, prop_round = round\<rparr>"

definition new_prevote ::
  "BaseHeight \<Rightarrow> Round \<Rightarrow> BaseValueId NilOrVal \<Rightarrow> BasePeerAddress \<Rightarrow> BaseVote" where
  "new_prevote height round vid addr =
     \<lparr>vote_type = Prevote, vote_height = height, vote_value_id = vid, vote_round = round,
      voter = addr, extension = None\<rparr>"

definition new_precommit ::
  "BaseHeight \<Rightarrow> Round \<Rightarrow> BaseValueId NilOrVal \<Rightarrow> BasePeerAddress \<Rightarrow> BaseVote" where
  "new_precommit height round vid addr =
     \<lparr>vote_type = Precommit, vote_height = height, vote_value_id = vid, vote_round = round,
      voter = addr, extension = None\<rparr>"

section \<open>decision.rs\<close>

datatype Validity = Valid | Invalid

text \<open>\<open>malachite_core_consensus::ProposedValue\<close>\<close>

record 'tx ProposedValue =
  pv_height :: BaseHeight
  pv_round :: Round
  pv_valid_round :: Round
  pv_proposer :: BasePeerAddress
  pv_value :: "'tx BaseValue"
  pv_validity :: Validity
  pv_extension :: "SignedExtension option"

record Decision =
  dec_peer :: BasePeerAddress
  dec_value_id :: BaseValueId
  dec_height :: BaseHeight

datatype 'tx DecisionStep = Proposed "'tx ProposedValue" | Finalized Decision

section \<open>Comparison of values\<close>

interpretation value_ord: rust_ord value_eq value_cmp value_partial_cmp
  using rust_ord_by_key[of value_id_u64] unfolding rust_ord_def value_eq_def value_cmp_def value_partial_cmp_def
  by blast

section \<open>Heights\<close>

text \<open>
  The contract malachite's \<open>Height\<close> trait gives its users: a height is its number, going up
  and then down by the same amount comes back, and going down below zero is refused.
\<close>

locale height_trait =
  fixes up :: "'h \<Rightarrow> u64 \<Rightarrow> panic + 'h"
    and down :: "'h \<Rightarrow> u64 \<Rightarrow> 'h option"
    and num :: "'h \<Rightarrow> u64"
  assumes num_inj: "num a = num b \<Longrightarrow> a = b"
    and up_exact: "unat (num h) + unat n < 2 ^ 64 \<Longrightarrow>
      \<exists>h'. up h n = Inr h' \<and> unat (num h') = unat (num h) + unat n"
    and down_iff: "down h n = Some h' \<longleftrightarrow> unat n \<le> unat (num h) \<and> unat (num h') = unat (num h) - unat n"
begin

lemma down_None: "unat (num h) < unat n \<Longrightarrow> down h n = None"
  using down_iff by (metis linorder_not_le option.exhaust)

lemma down_up:
  assumes "unat (num h) + unat n < 2 ^ 64"
  shows "\<exists>h'. up h n = Inr h' \<and> down h' n = Some h"
proof -
  obtain h' where h': "up h n = Inr h'" "unat (num h') = unat (num h) + unat n"
    using up_exact assms by blast
  then have "down h' n = Some h" by (simp add: down_iff)
  with h'(1) show ?thesis by blast
qed

lemma up_down:
  assumes "down h n = Some h'"
  shows "up h' n = Inr h"
proof -
  from assms have le: "unat n \<le> unat (num h)" and eq: "unat (num h') = unat (num h) - unat n"
    by (simp_all add: down_iff)
  then have "unat (num h') + unat n < 2 ^ 64" using unat_u64[of "num h"] by simp
  then obtain g where g: "up h' n = Inr g" "unat (num g) = unat (num h') + unat n"
    using up_exact by blast
  with le eq have "num g = num h" by (simp add: word_unat_eq_iff)
  with g num_inj show ?thesis by blast
qed

end

interpretation base_height: height_trait "increment_by oc" decrement_by as_u64 for oc
proof unfold_locales
  fix a b
  show "as_u64 a = as_u64 b \<Longrightarrow> a = b" by (simp add: as_u64_def BaseHeight.expand)
next
  fix h and n :: u64
  assume "unat (as_u64 h) + unat n < 2 ^ 64"
  then show "\<exists>h'. increment_by oc h n = Inr h' \<and> unat (as_u64 h') = unat (as_u64 h) + unat n"
    by (simp add: increment_by_def as_u64_def checked_plus_exact)
next
  fix h n h'
  show "decrement_by h n = Some h' \<longleftrightarrow>
      unat n \<le> unat (as_u64 h) \<and> unat (as_u64 h') = unat (as_u64 h) - unat n"
  proof (cases "n \<le> height_u64 h")
    case True
    then have "unat (height_u64 h - n) = unat (height_u64 h) - unat n" by (rule unat_sub)
    with True show ?thesis
      by (cases h') (auto simp: decrement_by_def as_u64_def word_le_nat_alt word_unat_eq_iff)
  next
    case False
    then show ?thesis by (simp add: decrement_by_def as_u64_def word_le_nat_alt)
  qed
qed

lemma increment_exact:
  assumes "unat (height_u64 h) < 2 ^ 64 - 1"
  obtains h' where "increment oc h = Inr h'" "unat (height_u64 h') = unat (height_u64 h) + 1"
proof -
  have "\<exists>h'. increment_by oc h 1 = Inr h' \<and> unat (as_u64 h') = unat (as_u64 h) + unat (1::u64)"
    by (rule base_height.up_exact) (use assms in \<open>simp add: as_u64_def\<close>)
  then show thesis using that by (auto simp: increment_def as_u64_def)
qed

lemma height_u64_inject: "height_u64 a = height_u64 b \<longleftrightarrow> a = b"
  by (cases a; cases b) simp

section \<open>Values\<close>

lemma compare_simps [simp]:
  "compare a b = Less \<longleftrightarrow> a < b"
  "compare a b = Equal \<longleftrightarrow> a = b"
  "compare a b = Greater \<longleftrightarrow> b < a"
  by (auto simp: compare_def)

section \<open>Big-endian round trip\<close>

lemma be_byte_unat: "unat (ucast (drop_bit (8 * i) (x::u64)) :: u8) = (unat x div 256 ^ i) mod 256"
proof -
  have "unat (drop_bit (8 * i) x) = drop_bit (8 * i) (unat x)" by (rule unat_drop_bit_eq)
  also have "\<dots> = unat x div 256 ^ i" by (simp add: drop_bit_eq_div power_mult)
  finally have "unat (drop_bit (8 * i) x) = unat x div 256 ^ i" .
  then show ?thesis by (simp only: unsigned_ucast_eq take_bit_eq_mod) simp
qed

lemma from_be_bytes_step:
  "foldl (\<lambda>acc (b::u8). acc * 256 + ucast b) (acc::u64) (map (\<lambda>i. ucast (drop_bit (8 * i) x)) (rev [0..<n]))
     = acc * 256 ^ n + of_nat (unat (x::u64) mod 256 ^ n)"
proof (induction n arbitrary: acc)
  case 0
  then show ?case by simp
next
  case (Suc n)
  define b :: u8 where "b = ucast (drop_bit (8 * n) x)"
  have ub: "(ucast b :: u64) = of_nat ((unat x div 256 ^ n) mod 256)"
    using be_byte_unat[of n x] unfolding b_def[symmetric] by (metis of_nat_unat)
  have split: "unat x mod 256 ^ Suc n = 256 ^ n * ((unat x div 256 ^ n) mod 256) + unat x mod 256 ^ n"
    by (metis mod_mult2_eq power_Suc2)
  have "foldl (\<lambda>acc (b::u8). acc * 256 + ucast b) acc (map (\<lambda>i. ucast (drop_bit (8 * i) x)) (rev [0..<Suc n]))
      = (acc * 256 + ucast b) * 256 ^ n + of_nat (unat x mod 256 ^ n)"
    using Suc.IH[of "acc * 256 + ucast b"] by (simp add: b_def)
  also have "\<dots> = acc * 256 ^ Suc n + of_nat (unat x mod 256 ^ Suc n)"
    unfolding split ub by (simp add: algebra_simps)
  finally show ?case .
qed

lemma from_to_be_bytes [simp]: "from_be_bytes (to_be_bytes x) = x"
proof -
  have "unat x mod 256 ^ 8 = unat x"
    using unat_u64[of x] by simp
  then show ?thesis
    unfolding from_be_bytes_def to_be_bytes_def from_be_bytes_step by simp
qed

lemma length_to_be_bytes [simp]: "length (to_be_bytes x) = 8"
  by (simp add: to_be_bytes_def)

lemma to_be_bytes_inject [simp]: "to_be_bytes x = to_be_bytes y \<longleftrightarrow> x = y"
  by (metis from_to_be_bytes)

section \<open>Peer sets\<close>

definition peer_set_wf :: "BasePeerSet \<Rightarrow> bool" where
  "peer_set_wf s \<longleftrightarrow> distinct (map peer_addr (peers s)) \<and> length (peers s) < 2 ^ 64"

text \<open>
  The contract of malachite's \<open>ValidatorSet\<close> trait: positions and addresses identify the same
  validators, and the total voting power is the sum over the validators. It is what quorum
  arguments rest on: two sets of validators that each hold more than two thirds of the total
  power share more than one third of it.
\<close>

locale validator_set =
  fixes wf :: "'s \<Rightarrow> bool"
    and cnt :: "'s \<Rightarrow> nat"
    and total :: "'s \<Rightarrow> u64"
    and by_addr :: "'s \<Rightarrow> 'a \<Rightarrow> 'v option"
    and by_idx :: "'s \<Rightarrow> nat \<Rightarrow> 'v option"
    and addr :: "'v \<Rightarrow> 'a"
    and power :: "'v \<Rightarrow> u64"
  assumes idx_dom: "by_idx s i \<noteq> None \<longleftrightarrow> i < cnt s"
    and idx_addr: "wf s \<Longrightarrow> by_addr s a = Some v \<longleftrightarrow> (\<exists>i<cnt s. by_idx s i = Some v \<and> addr v = a)"
    and total_sum: "wf s \<Longrightarrow> unat (total s) = (\<Sum>i<cnt s. unat (power (the (by_idx s i))))"
begin

definition power_of :: "'s \<Rightarrow> nat set \<Rightarrow> nat" where
  "power_of s Q = (\<Sum>i\<in>Q. unat (power (the (by_idx s i))))"

lemma addr_unique:
  assumes "wf s" "by_idx s i = Some v" "by_idx s j = Some w" "addr v = addr w"
  shows "v = w"
proof -
  have "i < cnt s" "j < cnt s" using assms idx_dom by (metis option.discI)+
  then have "by_addr s (addr v) = Some v" "by_addr s (addr v) = Some w"
    using assms idx_addr by metis+
  then show ?thesis by simp
qed

lemma quorums_intersect:
  assumes wf: "wf s" and A: "A \<subseteq> {..<cnt s}" and B: "B \<subseteq> {..<cnt s}"
    and qA: "3 * power_of s A > 2 * unat (total s)" and qB: "3 * power_of s B > 2 * unat (total s)"
  shows "3 * power_of s (A \<inter> B) > unat (total s)"
proof -
  have fin: "finite A" "finite B" using A B finite_subset by blast+
  have "power_of s (A \<union> B) \<le> unat (total s)"
    unfolding power_of_def total_sum[OF wf] using A B by (intro sum_mono2) auto
  moreover have "power_of s (A \<union> B) + power_of s (A \<inter> B) = power_of s A + power_of s B"
    unfolding power_of_def using fin by (rule sum.union_inter)
  ultimately show ?thesis using qA qB by linarith
qed

end

lemma find_Some_distinct:
  assumes "distinct (map f xs)"
  shows "find (\<lambda>x. f x = a) xs = Some v \<longleftrightarrow> (\<exists>i<length xs. xs ! i = v \<and> f v = a)"
proof
  assume "find (\<lambda>x. f x = a) xs = Some v"
  then show "\<exists>i<length xs. xs ! i = v \<and> f v = a" by (auto simp: find_Some_iff)
next
  assume "\<exists>i<length xs. xs ! i = v \<and> f v = a"
  then obtain i where i: "i < length xs" "xs ! i = v" "f v = a" by blast
  have "f (xs ! j) \<noteq> a" if "j < i" for j
  proof -
    have "map f xs ! j \<noteq> map f xs ! i"
      using assms i(1) that by (subst nth_eq_iff_index_eq) auto
    then show ?thesis using i that by simp
  qed
  with i show "find (\<lambda>x. f x = a) xs = Some v" by (auto simp: find_Some_iff)
qed

interpretation base_peers: validator_set peer_set_wf count total_voting_power
  get_by_address get_by_index address voting_power
proof unfold_locales
  fix s i
  show "get_by_index s i \<noteq> None \<longleftrightarrow> i < count s" by (simp add: get_by_index_def count_def)
next
  fix s a v
  assume "peer_set_wf s"
  then show "get_by_address s a = Some v \<longleftrightarrow> (\<exists>i<count s. get_by_index s i = Some v \<and> address v = a)"
    by (auto simp: peer_set_wf_def get_by_address_def get_by_index_def count_def address_def
        find_Some_distinct)
next
  fix s
  assume "peer_set_wf s"
  then show "unat (total_voting_power s)
      = (\<Sum>i<count s. unat (voting_power (the (get_by_index s i))))"
    by (simp add: peer_set_wf_def total_voting_power_def count_def voting_power_def
        BASE_VOTING_POWER_def unsigned_of_nat take_bit_nat_eq_self_iff)
qed

lemma of_nat_u32_inject:
  "i < 2 ^ 32 \<Longrightarrow> j < 2 ^ 32 \<Longrightarrow> (of_nat i :: u32) = of_nat j \<longleftrightarrow> i = j"
  by (simp add: word_unat_eq_iff unsigned_of_nat take_bit_nat_eq_self)

lemma unat_u32: "unat (x::u32) < 2 ^ 32"
  using unsigned_less[of x, where ?'a = nat] by simp

lemma peers_new [simp]:
  "peers (BasePeerSet_new sz pk) = map (\<lambda>i. BasePeer_new (of_nat i) pk) [0..<unat sz]"
  by (simp add: BasePeerSet_new_def)

lemma peer_addr_new [simp]: "peer_addr (BasePeer_new i pk) = BasePeerAddress i"
  by (simp add: BasePeer_new_def BasePeerAddress_new_def)

lemma peer_addrs_new:
  "map peer_addr (peers (BasePeerSet_new sz pk)) = map (\<lambda>i. BasePeerAddress (of_nat i)) [0..<unat sz]"
  by simp

lemma BasePeerSet_new_wf: "peer_set_wf (BasePeerSet_new sz pk)"
proof -
  have bound: "unat sz < 2 ^ 32" by (rule unat_u32)
  then have "inj_on (\<lambda>i. BasePeerAddress (of_nat i)) {0..<unat sz}"
    by (auto simp: inj_on_def of_nat_u32_inject)
  then have "distinct (map (\<lambda>i. BasePeerAddress (of_nat i)) [0..<unat sz])"
    by (simp add: distinct_map)
  with bound show ?thesis
    unfolding peer_set_wf_def peer_addrs_new by simp
qed

section \<open>Properties\<close>

text \<open>C37: heights: going up by an amount that fits in 64 bits is exact and going down by the same amount
  comes back; an amount that does not fit panics with overflow checks and wraps around without them; going
  down below zero is refused.\<close>

theorem height_round_trip:
  "(unat (as_u64 h) + unat n < 2 ^ 64 \<longrightarrow>
      (\<exists>h'. increment_by oc h n = Inr h' \<and> unat (as_u64 h') = unat (as_u64 h) + unat n \<and> decrement_by h' n = Some h)) \<and>
   (2 ^ 64 \<le> unat (as_u64 h) + unat n \<longrightarrow>
      increment_by True h n = Inl ArithOverflow \<and>
      (\<exists>h'. increment_by False h n = Inr h' \<and> unat (as_u64 h') = unat (as_u64 h) + unat n - 2 ^ 64)) \<and>
   (decrement_by h n = None \<longleftrightarrow> unat (as_u64 h) < unat n)"
proof (intro conjI impI)
  assume fits: "unat (as_u64 h) + unat n < 2 ^ 64"
  then show "\<exists>h'. increment_by oc h n = Inr h' \<and> unat (as_u64 h') = unat (as_u64 h) + unat n \<and> decrement_by h' n = Some h"
    using base_height.down_up[OF fits, of oc] base_height.up_exact[OF fits, of oc] by auto
next
  assume over: "2 ^ 64 \<le> unat (as_u64 h) + unat n"
  then show "increment_by True h n = Inl ArithOverflow"
    by (simp add: increment_by_def as_u64_def checked_plus_panics)
  have "unat (as_u64 h) + unat n - 2 ^ 64 < 2 ^ 64" using unat_u64[of "as_u64 h"] unat_u64[of n] by linarith
  then have "unat (as_u64 h + n) = unat (as_u64 h) + unat n - 2 ^ 64"
    using over by (simp add: unat_word_ariths mod_if)
  then show "\<exists>h'. increment_by False h n = Inr h' \<and> unat (as_u64 h') = unat (as_u64 h) + unat n - 2 ^ 64"
    by (simp add: increment_by_def as_u64_def checked_plus_wraps)
next
  show "decrement_by h n = None \<longleftrightarrow> unat (as_u64 h) < unat n"
    by (auto simp: decrement_by_def as_u64_def word_le_nat_alt split: bool.splits)
qed

theorem height_round_trip_witness:
  "(\<exists>h'. increment_by True (BaseHeight 5) 3 = Inr h' \<and> decrement_by h' 3 = Some (BaseHeight 5)) \<and>
   increment_by True (BaseHeight (- 1)) 1 = Inl ArithOverflow"
  using height_round_trip[of "BaseHeight 5" 3 True] height_round_trip[of "BaseHeight (- 1)" 1 True]
  by (auto simp: as_u64_def unsigned_minus_1_eq_mask mask_eq_exp_minus_1)

text \<open>C38: the peer set of size \<open>n\<close> contains exactly the addresses 0 to \<open>n - 1\<close>: looking a peer up by its
  address or by its position gives the same peer, other addresses and positions give none, and the total
  voting power is \<open>n\<close>; the proposer is peer 0 at every height and round.\<close>

theorem peer_set_lookup:
  "get_by_address (BasePeerSet_new sz pk) a =
     (if unat (addr_u32 a) < unat sz then Some (BasePeer_new (addr_u32 a) pk) else None) \<and>
   get_by_index (BasePeerSet_new sz pk) i = (if i < unat sz then Some (BasePeer_new (of_nat i) pk) else None) \<and>
   unat (total_voting_power (BasePeerSet_new sz pk)) = unat sz \<and>
   select_proposer (BasePeerSet_new sz pk) h r =
     (if sz = 0 then Inl (Expect ''no peer found in the validator set'') else Inr (BasePeer_new 0 pk))"
  (is "?A \<and> ?I \<and> ?T \<and> ?P")
proof -
  define s where "s = BasePeerSet_new sz pk"
  have idx: "get_by_index s j = (if j < unat sz then Some (BasePeer_new (of_nat j) pk) else None)" for j
    by (simp add: s_def get_by_index_def)
  then have ?I by (simp add: s_def)
  have cnt: "count s = unat sz" by (simp add: s_def count_def)
  have wf: "peer_set_wf s" unfolding s_def by (rule BasePeerSet_new_wf)
  have addr: "get_by_address s a = Some v \<longleftrightarrow> unat (addr_u32 a) < unat sz \<and> v = BasePeer_new (addr_u32 a) pk" for v
    unfolding base_peers.idx_addr[OF wf] cnt idx
    using unat_u32[of sz]
    by (cases a) (auto simp: address_def unsigned_of_nat take_bit_nat_eq_self split: if_splits
        intro!: exI[of _ "unat (addr_u32 a)"])
  have ?A using addr unfolding s_def by (cases "get_by_address (BasePeerSet_new sz pk) a") auto
  moreover have "unat (total_voting_power s) = unat sz"
    using base_peers.total_sum[OF wf] by (simp add: cnt idx voting_power_def BASE_VOTING_POWER_def)
  moreover have ?P
    by (cases "unat sz") (auto simp: select_proposer_def upt_rec unat_eq_0 split: list.splits)
  ultimately show ?thesis using \<open>?I\<close> unfolding s_def by blast
qed

text \<open>The voting power of the peers at the positions \<open>Q\<close>.\<close>

definition held_power :: "BasePeerSet \<Rightarrow> nat set \<Rightarrow> nat" where
  "held_power s Q = (\<Sum>i\<in>Q. unat (voting_power (the (get_by_index s i))))"

text \<open>in a peer set of any size, two groups of peers that each hold more than two thirds of the total
  voting power have more than one third of it in common.\<close>

theorem two_thirds_quorums_intersect:
  assumes "A \<subseteq> {..<count (BasePeerSet_new sz pk)}" and "B \<subseteq> {..<count (BasePeerSet_new sz pk)}"
    and "3 * held_power (BasePeerSet_new sz pk) A > 2 * unat (total_voting_power (BasePeerSet_new sz pk))"
    and "3 * held_power (BasePeerSet_new sz pk) B > 2 * unat (total_voting_power (BasePeerSet_new sz pk))"
  shows "3 * held_power (BasePeerSet_new sz pk) (A \<inter> B) > unat (total_voting_power (BasePeerSet_new sz pk))"
  using base_peers.quorums_intersect[OF BasePeerSet_new_wf, of A sz pk B] assms
  unfolding held_power_def base_peers.power_of_def by blast

theorem two_thirds_quorums_intersect_witness:
  "3 * held_power (BasePeerSet_new 4 (PublicKey [])) ({0, 1, 2} \<inter> {1, 2, 3})
     > unat (total_voting_power (BasePeerSet_new 4 (PublicKey [])))"
  by (rule two_thirds_quorums_intersect)
    (auto simp: count_def total_voting_power_def held_power_def voting_power_def BASE_VOTING_POWER_def)

text \<open>C39: a signature made by the signing provider verifies under the provider's public key. What it
  covers is the height alone for a vote and the value's identifier alone for a proposal: the same signature
  verifies for every other vote of that height and every other proposal of that value, and the signed bytes
  differ for any other height and any other identifier.\<close>

theorem provider_signatures_verify:
  assumes "ed_correct E"
  shows "verify E (provider_public_key E sp) (vote_to_bytes v) (signature (sign_vote E sp v)) = Inr () \<and>
    verify E (provider_public_key E sp) (proposal_to_bytes p) (signature (sign_proposal E sp p)) = Inr () \<and>
    (vote_height v' = vote_height v \<longrightarrow>
       verify E (provider_public_key E sp) (vote_to_bytes v') (signature (sign_vote E sp v)) = Inr ()) \<and>
    (vote_to_bytes v' = vote_to_bytes v \<longleftrightarrow> vote_height v' = vote_height v) \<and>
    (proposal_to_bytes p' = proposal_to_bytes p \<longleftrightarrow> value_id (prop_value p') = value_id (prop_value p))"
  using verify_sign[OF assms]
  by (simp add: provider_public_key_def sign_vote_def sign_proposal_def vote_to_bytes_def proposal_to_bytes_def
      value_id_def height_u64_inject)

theorem provider_signatures_verify_witness:
  "verify toy_ed25519 (provider_public_key toy_ed25519 (BaseSigningProvider_new toy_ed25519 [1]))
     (vote_to_bytes (new_precommit (BaseHeight 2) RoundNil NilVal (BasePeerAddress 3)))
     (signature (sign_vote toy_ed25519 (BaseSigningProvider_new toy_ed25519 [1])
        (new_prevote (BaseHeight 2) RoundNil (Val (BaseValueId 9)) (BasePeerAddress 1)))) = Inr ()"
  using provider_signatures_verify[OF toy_ed25519_ok(1), of "BaseSigningProvider_new toy_ed25519 [1]"
      "new_prevote (BaseHeight 2) RoundNil (Val (BaseValueId 9)) (BasePeerAddress 1)"
      "new_proposal (BaseHeight 2) RoundNil \<lparr>value_id_u64 = 9, transactions = [0 :: nat]\<rparr> RoundNil (BasePeerAddress 0)"
      "new_precommit (BaseHeight 2) RoundNil NilVal (BasePeerAddress 3)"
      "new_proposal (BaseHeight 2) RoundNil \<lparr>value_id_u64 = 9, transactions = [0 :: nat]\<rparr> RoundNil (BasePeerAddress 0)"]
  by (simp add: new_prevote_def new_precommit_def)



end
