(* ===== verification/Malachite_Api.thy ===== *)
theory Malachite_Api
  imports Consensus_Context
begin

text \<open>
  The interface of the crate \<open>malachite_core_consensus\<close> as \<open>application.rs\<close> and \<open>simulator.rs\<close>
  use it. The crate is not part of the repository.

  Its data types are kept as far as the source builds or inspects them: the six inputs the
  source sends, the effects its handler matches on (arguments the source ignores with \<open>_\<close> are
  left out), and the values it hands back to the library with \<open>resume_with\<close>.

  Its code is the parameter \<open>consensus_lib\<close>. Processing an input is a coroutine: it either
  completes with a result and the new consensus state, or yields an effect and waits for the
  handler's answer. The coroutine is a codatatype, so that a library that yields effects for
  ever is not excluded; \<open>completes\<close> says that it does not.
\<close>

section \<open>Messages\<close>

text \<open>Of the timeout kinds the source distinguishes only \<open>Commit\<close>.\<close>

datatype TimeoutKind = TimeoutCommit | TimeoutOther nat

record Timeout =
  timeout_round :: Round
  timeout_kind :: TimeoutKind

datatype ValueOrigin = OriginConsensus
datatype ValuePayload = ProposalOnly
datatype ThresholdParams = DefaultThresholds

record 'tx ValueToPropose =
  vtp_height :: BaseHeight
  vtp_round :: Round
  vtp_valid_round :: Round
  vtp_value :: "'tx BaseValue"
  vtp_extension :: "SignedExtension option"

record Params =
  initial_height :: BaseHeight
  initial_validator_set :: BasePeerSet
  params_address :: BasePeerAddress
  threshold_params :: ThresholdParams
  value_payload :: ValuePayload

datatype 'tx SignedConsensusMsg =
    SignedVote "BaseVote SignedMessage"
  | SignedProposal "'tx BaseProposal SignedMessage"

datatype 'tx ConsensusMsg = MsgVote BaseVote | MsgProposal "'tx BaseProposal"

datatype 'tx Input =
    StartHeight BaseHeight BasePeerSet
  | InVote "BaseVote SignedMessage"
  | InProposal "'tx BaseProposal SignedMessage"
  | Propose "'tx ValueToPropose"
  | TimeoutElapsed Timeout
  | InProposedValue "'tx ProposedValue" ValueOrigin

record CommitCertificate =
  cert_height :: BaseHeight
  cert_value_id :: BaseValueId

section \<open>Effects and answers\<close>

datatype 'tx Effect =
    ResetTimeouts
  | CancelAllTimeouts
  | CancelTimeout
  | ScheduleTimeout Timeout
  | StartRound
  | Publish "'tx SignedConsensusMsg"
  | GetValue BaseHeight Round
  | GetValidatorSet BaseHeight
  | VerifySignature "'tx ConsensusMsg SignedMessage"
  | Decide CommitCertificate
  | RestreamValue
  | PersistMessage
  | PersistTimeout
  | SignVote BaseVote
  | SignProposal "'tx BaseProposal"
  | GetVoteSet
  | SendVoteSetResponse
  | VerifyCertificate

text \<open>The value a handler resumes the library with.\<close>

datatype 'tx Resume =
    Continue
  | ResumeValidatorSet "BasePeerSet option"
  | ResumeSignatureValidity bool
  | ResumeSignedVote "BaseVote SignedMessage"
  | ResumeSignedProposal "'tx BaseProposal SignedMessage"

section \<open>The library as a parameter\<close>

datatype consensus_error = ConsensusError string

codatatype ('tx, 'cs) coroutine =
    Complete "consensus_error + unit" 'cs
  | Yield "'tx Effect" "string + 'tx Resume \<Rightarrow> ('tx, 'cs) coroutine"

record ('tx, 'cs) consensus_lib =
  state_new :: "BaseContext \<Rightarrow> Params \<Rightarrow> 'cs"
  state_params :: "'cs \<Rightarrow> Params"
  state_ctx :: "'cs \<Rightarrow> BaseContext"
  process_input :: "'tx Input \<Rightarrow> 'cs \<Rightarrow> ('tx, 'cs) coroutine"

text \<open>Whatever the handler answers, the coroutine completes after finitely many effects.\<close>

inductive completes :: "('tx, 'cs) coroutine \<Rightarrow> bool" where
  complete: "completes (Complete r s)"
| yield: "(\<And>a. completes (k a)) \<Longrightarrow> completes (Yield e k)"

inductive_simps completes_Complete [simp]: "completes (Complete r s)"
inductive_simps completes_Yield [simp]: "completes (Yield e k)"

section \<open>A concrete library\<close>

text \<open>
  A library that asks for a value when a height starts and does nothing else; its state is the
  parameters it was made with. It shows that the assumptions on the library can hold.
\<close>

definition toy_lib :: "BaseContext \<Rightarrow> ('tx, Params) consensus_lib" where
  "toy_lib ctx =
     \<lparr>state_new = (\<lambda>ctx p. p), state_params = (\<lambda>s. s), state_ctx = (\<lambda>s. ctx),
      process_input = (\<lambda>i s. case i of
          StartHeight h vs \<Rightarrow> Yield (GetValue h (RoundSome 0)) (\<lambda>a. Complete (Inr ()) s)
        | _ \<Rightarrow> Complete (Inr ()) s)\<rparr>"

lemma toy_lib_completes: "completes (process_input (toy_lib ctx) i s)"
  by (cases i) (simp_all add: toy_lib_def)

end
