(* ===== verification/Channels.thy ===== *)
theory Channels
  imports Rem_Prelude
begin

text \<open>
  The channels that connect the components, and the task's backlog queue.

  The simulated network (\<open>std::sync::mpsc\<close>), the decision stream and the stream of blocks to
  the task (tokio's unbounded channels) and the proposals stream (a crossbeam channel of
  capacity 1) are first-in first-out queues. A channel is the list of the messages that were
  sent and not yet received, with two flags: whether its receiver still exists (a send to a
  channel without a receiver is an error) and whether a sender still exists (a receive from an
  empty channel without senders reports the disconnection instead of waiting).

  The locale \<open>fifo\<close> is the contract the components rely on; it is interpreted on the unbounded
  channel, on the bounded channel and on the task's \<open>VecDeque\<close>.
\<close>

section \<open>Definitions\<close>

record 'a channel =
  items :: "'a list"
  rx_alive :: bool
  tx_alive :: bool

definition new_channel :: "'a channel" where
  "new_channel = \<lparr>items = [], rx_alive = True, tx_alive = True\<rparr>"

datatype send_error = SendError

definition chan_send :: "'a \<Rightarrow> 'a channel \<Rightarrow> send_error + 'a channel" where
  "chan_send x ch =
     (if rx_alive ch then Inr (ch\<lparr>items := items ch @ [x]\<rparr>) else Inl SendError)"

text \<open>A send on a channel of capacity \<open>n\<close> waits while the channel is full.\<close>

datatype 'a bounded_send = BSent 'a | BFull | BDisconnected

definition chan_send_bounded :: "nat \<Rightarrow> 'a \<Rightarrow> 'a channel \<Rightarrow> 'a channel bounded_send" where
  "chan_send_bounded n x ch =
     (if \<not> rx_alive ch then BDisconnected
      else if n \<le> length (items ch) then BFull
      else BSent (ch\<lparr>items := items ch @ [x]\<rparr>))"

text \<open>
  The answer of a receive: a message, no message for now (a blocking receive waits, a poll is
  \<open>Pending\<close>, a \<open>try_recv\<close> fails), or the disconnection.
\<close>

datatype 'a received = Item 'a | Empty | Disconnected

definition chan_recv :: "'a channel \<Rightarrow> 'a received \<times> 'a channel" where
  "chan_recv ch =
     (case items ch of
        x # xs \<Rightarrow> (Item x, ch\<lparr>items := xs\<rparr>)
      | [] \<Rightarrow> (if tx_alive ch then Empty else Disconnected, ch))"

text \<open>\<open>VecDeque::push_back\<close> and \<open>VecDeque::pop_front\<close>.\<close>

definition push_back :: "'a \<Rightarrow> 'a list \<Rightarrow> 'a list" where
  "push_back x q = q @ [x]"

definition pop_front :: "'a list \<Rightarrow> ('a \<times> 'a list) option" where
  "pop_front q = (case q of [] \<Rightarrow> None | x # xs \<Rightarrow> Some (x, xs))"

section \<open>The queue contract\<close>

text \<open>
  \<open>put\<close> may refuse a message (\<open>None\<close>); \<open>get\<close> answers \<open>None\<close> on an empty queue.
  What has been put is got in the same order, nothing is lost and nothing is made up.
\<close>

locale fifo =
  fixes put :: "'a \<Rightarrow> 'q \<Rightarrow> 'q option"
    and get :: "'q \<Rightarrow> ('a \<times> 'q) option"
    and contents :: "'q \<Rightarrow> 'a list"
  assumes put_contents: "put x q = Some q' \<Longrightarrow> contents q' = contents q @ [x]"
    and get_Some: "get q = Some (x, q') \<Longrightarrow> contents q = x # contents q'"
    and get_None: "get q = None \<longleftrightarrow> contents q = []"
begin

primrec put_all :: "'a list \<Rightarrow> 'q \<Rightarrow> 'q option" where
  "put_all [] q = Some q"
| "put_all (x # xs) q = (case put x q of None \<Rightarrow> None | Some q' \<Rightarrow> put_all xs q')"

primrec get_n :: "nat \<Rightarrow> 'q \<Rightarrow> 'a list \<times> 'q" where
  "get_n 0 q = ([], q)"
| "get_n (Suc n) q =
     (case get q of None \<Rightarrow> ([], q) | Some (x, q') \<Rightarrow> (let (xs, q'') = get_n n q' in (x # xs, q'')))"

lemma put_all_contents: "put_all xs q = Some q' \<Longrightarrow> contents q' = contents q @ xs"
  by (induction xs arbitrary: q) (auto split: option.splits dest: put_contents)

lemma get_n_contents:
  "fst (get_n n q) = take n (contents q) \<and> contents (snd (get_n n q)) = drop n (contents q)"
proof (induction n arbitrary: q)
  case 0
  then show ?case by simp
next
  case (Suc n)
  then show ?case
  proof (cases "get q")
    case None
    then show ?thesis using get_None[of q] by simp
  next
    case (Some p)
    obtain x q' where p: "p = (x, q')" by fastforce
    with Some have "contents q = x # contents q'" by (simp add: get_Some)
    with Some p Suc.IH[of q'] show ?thesis by (auto split: prod.splits)
  qed
qed

lemma fifo_order:
  assumes "put_all xs q = Some q'"
  shows "fst (get_n (length (contents q) + length xs) q') = contents q @ xs"
  using assms by (simp add: get_n_contents put_all_contents)

end

section \<open>The channels and the backlog satisfy the contract\<close>

definition chan_put :: "'a \<Rightarrow> 'a channel \<Rightarrow> 'a channel option" where
  "chan_put x ch = (case chan_send x ch of Inl _ \<Rightarrow> None | Inr ch' \<Rightarrow> Some ch')"

definition chan_put_bounded :: "nat \<Rightarrow> 'a \<Rightarrow> 'a channel \<Rightarrow> 'a channel option" where
  "chan_put_bounded n x ch = (case chan_send_bounded n x ch of BSent ch' \<Rightarrow> Some ch' | _ \<Rightarrow> None)"

definition chan_get :: "'a channel \<Rightarrow> ('a \<times> 'a channel) option" where
  "chan_get ch = (case chan_recv ch of (Item x, ch') \<Rightarrow> Some (x, ch') | _ \<Rightarrow> None)"

lemma chan_get_Some: "chan_get ch = Some (x, ch') \<Longrightarrow> items ch = x # items ch'"
  by (auto simp: chan_get_def chan_recv_def split: list.splits if_splits)

lemma chan_get_None: "chan_get ch = None \<longleftrightarrow> items ch = []"
  by (auto simp: chan_get_def chan_recv_def split: list.splits)

interpretation unbounded: fifo chan_put chan_get items
  by unfold_locales
    (auto simp: chan_put_def chan_send_def chan_get_Some chan_get_None split: if_splits)

interpretation bounded: fifo "chan_put_bounded n" chan_get items for n
  by unfold_locales
    (auto simp: chan_put_bounded_def chan_send_bounded_def chan_get_Some chan_get_None
       split: if_splits)

interpretation vec_deque: fifo "\<lambda>x q. Some (push_back x q)" pop_front "\<lambda>q. q"
  by unfold_locales (auto simp: push_back_def pop_front_def split: list.splits)

section \<open>Case analysis used by the components\<close>

lemma chan_recv_simps [simp]:
  "items ch = x # xs \<Longrightarrow> chan_recv ch = (Item x, ch\<lparr>items := xs\<rparr>)"
  "items ch = [] \<Longrightarrow> tx_alive ch \<Longrightarrow> chan_recv ch = (Empty, ch)"
  "items ch = [] \<Longrightarrow> \<not> tx_alive ch \<Longrightarrow> chan_recv ch = (Disconnected, ch)"
  by (simp_all add: chan_recv_def)

lemma chan_recv_cases:
  obtains (item) x ch' where "chan_recv ch = (Item x, ch')" "items ch = x # items ch'"
      "rx_alive ch' = rx_alive ch" "tx_alive ch' = tx_alive ch"
  | (empty) "chan_recv ch = (Empty, ch)" "items ch = []" "tx_alive ch"
  | (disconnected) "chan_recv ch = (Disconnected, ch)" "items ch = []" "\<not> tx_alive ch"
proof (cases "items ch")
  case Nil
  with empty disconnected show thesis by (cases "tx_alive ch") auto
next
  case (Cons x xs)
  show thesis by (rule item[of x "ch\<lparr>items := xs\<rparr>"]) (simp_all add: Cons)
qed

lemma chan_send_simps [simp]:
  "rx_alive ch \<Longrightarrow> chan_send x ch = Inr (ch\<lparr>items := items ch @ [x]\<rparr>)"
  "\<not> rx_alive ch \<Longrightarrow> chan_send x ch = Inl SendError"
  by (simp_all add: chan_send_def)

end
