(* ===== verification/Application.thy ===== *)
theory Application
  imports Malachite_Api Channels "HOL-Library.Sublist"
begin

text \<open>
  \<open>chain/application.rs\<close>: the application that runs at one peer. It starts the first height,
  hands inputs to the consensus library and carries out the effects the library yields.

  The application's three channel ends (the network sender, the decision sender and the
  proposals receiver) are shared by all peers, so the channels are the world \<open>app_world\<close> in
  which the handlers act and the application itself is its peer identifier. A handler that
  returns \<open>Err\<close> is the value \<open>Inl\<close> inside a successful action; a panic ends the action.
\<close>

section \<open>Definitions\<close>

text \<open>\<open>Envelope\<close> of \<open>simulator.rs\<close>: an input on its way to a peer.\<close>

record 'tx Envelope =
  source :: BasePeerAddress
  destination :: BasePeerAddress
  payload :: "'tx Input"

record Application =
  peer_id :: BasePeerAddress

record 'tx app_world =
  network :: "'tx Envelope channel"
  decision_steps :: "'tx DecisionStep channel"
  proposals :: "'tx BaseValue channel"

text \<open>\<open>self.network_tx.send(envelope).unwrap()\<close>\<close>

definition network_send :: "'tx Envelope \<Rightarrow> ('tx app_world, unit) act" where
  "network_send e w =
     (case chan_send e (network w) of
        Inl _ \<Rightarrow> (Inl UnwrapErr, w)
      | Inr ch \<Rightarrow> (Inr (), w\<lparr>network := ch\<rparr>))"

text \<open>\<open>self.decision_step_tx.send(step).expect(msg)\<close>\<close>

definition decision_send :: "string \<Rightarrow> 'tx DecisionStep \<Rightarrow> ('tx app_world, unit) act" where
  "decision_send msg d w =
     (case chan_send d (decision_steps w) of
        Inl _ \<Rightarrow> (Inl (Expect msg), w)
      | Inr ch \<Rightarrow> (Inr (), w\<lparr>decision_steps := ch\<rparr>))"

definition app_init :: "Application \<Rightarrow> BasePeerSet \<Rightarrow> ('tx app_world, unit) act" where
  "app_init self initial_set =
     network_send
       \<lparr>source = peer_id self, destination = peer_id self,
        payload = StartHeight (BaseHeight 0) initial_set\<rparr>"

definition handle_schedule_timeout ::
  "Application \<Rightarrow> Timeout \<Rightarrow> ('tx app_world, string + 'tx Resume) act" where
  "handle_schedule_timeout self t =
     bind
       (if timeout_kind t = TimeoutCommit
        then network_send
          \<lparr>source = peer_id self, destination = peer_id self, payload = TimeoutElapsed t\<rparr>
        else ret ())
       (\<lambda>_. ret (Inr Continue))"

definition proposed_value_of :: "'tx BaseProposal SignedMessage \<Rightarrow> 'tx ProposedValue" where
  "proposed_value_of sp =
     (let p = message sp in
      \<lparr>pv_height = prop_height p, pv_round = prop_round p, pv_valid_round = RoundNil,
       pv_proposer = prop_proposer p, pv_value = prop_value p, pv_validity = Valid,
       pv_extension = None\<rparr>)"

text \<open>The body of the loop in \<open>handle_publish\<close>, for one destination.\<close>

definition publish_to ::
  "Application \<Rightarrow> 'tx SignedConsensusMsg \<Rightarrow> BasePeer \<Rightarrow> ('tx app_world, unit) act" where
  "publish_to self v dest =
     (case v of
        SignedVote sv \<Rightarrow>
          (if address dest \<noteq> peer_id self
           then network_send
             \<lparr>source = peer_id self, destination = address dest, payload = InVote sv\<rparr>
           else ret ())
      | SignedProposal sp \<Rightarrow>
          bind (network_send
                 \<lparr>source = peer_id self, destination = address dest, payload = InProposal sp\<rparr>)
          (\<lambda>_. let pv = proposed_value_of sp in
             bind (decision_send ''unable to communicate the next step for a decision'' (Proposed pv))
             (\<lambda>_. network_send
                    \<lparr>source = peer_id self, destination = address dest,
                     payload = InProposedValue pv OriginConsensus\<rparr>)))"

definition handle_publish ::
  "Application \<Rightarrow> 'tx SignedConsensusMsg \<Rightarrow> Params \<Rightarrow> ('tx app_world, string + 'tx Resume) act" where
  "handle_publish self v params =
     bind (foreach (peers (initial_validator_set params)) (publish_to self v))
       (\<lambda>_. ret (Inr Continue))"

definition handle_decide ::
  "bool \<Rightarrow> Application \<Rightarrow> CommitCertificate \<Rightarrow> Params \<Rightarrow> ('tx app_world, string + 'tx Resume) act" where
  "handle_decide oc self cert params =
     bind (decision_send ''unable to send a decision''
            (Finalized \<lparr>dec_peer = peer_id self, dec_value_id = cert_value_id cert,
                        dec_height = cert_height cert\<rparr>))
     (\<lambda>_. let val_set = initial_validator_set params in
        bind (lift (increment oc (cert_height cert)))
        (\<lambda>next_height.
           bind (network_send
                  \<lparr>source = peer_id self, destination = peer_id self,
                   payload = StartHeight next_height val_set\<rparr>)
           (\<lambda>_. ret (Inr Continue))))"

text \<open>\<open>try_recv\<close>: an empty or disconnected channel makes the handler return \<open>Err("no value")\<close>.\<close>

definition handle_get_value ::
  "Application \<Rightarrow> BaseHeight \<Rightarrow> Round \<Rightarrow> ('tx app_world, string + 'tx Resume) act" where
  "handle_get_value self h r w =
     (case chan_recv (proposals w) of
        (Item val, ch) \<Rightarrow>
          bind (network_send
                 \<lparr>source = peer_id self, destination = peer_id self,
                  payload = Propose \<lparr>vtp_height = h, vtp_round = r, vtp_valid_round = RoundNil,
                                     vtp_value = val, vtp_extension = None\<rparr>\<rparr>)
          (\<lambda>_. ret (Inr Continue)) (w\<lparr>proposals := ch\<rparr>)
      | (_, ch) \<Rightarrow> (Inr (Inl ''no value''), w))"

definition handle_effect ::
  "bool \<Rightarrow> ed25519 \<Rightarrow> Application \<Rightarrow> Params \<Rightarrow> 'tx Effect \<Rightarrow> BaseContext
     \<Rightarrow> ('tx app_world, string + 'tx Resume) act" where
  "handle_effect oc E self params effect ctx =
     (if params_address params \<noteq> peer_id self then abort AssertFailed
      else case effect of
        ResetTimeouts \<Rightarrow> ret (Inr Continue)
      | CancelAllTimeouts \<Rightarrow> ret (Inr Continue)
      | CancelTimeout \<Rightarrow> ret (Inr Continue)
      | ScheduleTimeout t \<Rightarrow>
          bind (handle_schedule_timeout self t) (\<lambda>res. bind (unwrap res) (\<lambda>_. ret (Inr Continue)))
      | StartRound \<Rightarrow> ret (Inr Continue)
      | Publish v \<Rightarrow>
          bind (handle_publish self v params) (\<lambda>res. bind (unwrap res) (\<lambda>_. ret (Inr Continue)))
      | GetValue h r \<Rightarrow>
          bind (handle_get_value self h r) (\<lambda>res. bind (unwrap res) (\<lambda>_. ret (Inr Continue)))
      | GetValidatorSet h \<Rightarrow>
          ret (Inr (ResumeValidatorSet (Some (initial_validator_set params))))
      | VerifySignature m \<Rightarrow> ret (Inr (ResumeSignatureValidity True))
      | Decide cert \<Rightarrow>
          bind (handle_decide oc self cert params)
            (\<lambda>res. bind (unwrap res) (\<lambda>_. ret (Inr Continue)))
      | RestreamValue \<Rightarrow>
          abort (PanicMsg ''unimplemented arm Effect::RestreamValue in match effect'')
      | PersistMessage \<Rightarrow> ret (Inr Continue)
      | PersistTimeout \<Rightarrow> ret (Inr Continue)
      | SignVote v \<Rightarrow> ret (Inr (ResumeSignedVote (sign_vote E (signing_provider ctx) v)))
      | SignProposal p \<Rightarrow> ret (Inr (ResumeSignedProposal (sign_proposal E (signing_provider ctx) p)))
      | GetVoteSet \<Rightarrow> abort (PanicMsg ''unimplemented arm Effect::GetVoteSet in match effect'')
      | SendVoteSetResponse \<Rightarrow>
          abort (PanicMsg ''unimplemented arm Effect::SendVoteSetResponse in match effect'')
      | VerifyCertificate \<Rightarrow>
          abort (PanicMsg ''unimplemented arm Effect::VerifyCertificate in match effect''))"

text \<open>
  \<open>apply_input\<close> is the \<open>process!\<close> loop: resume the coroutine with the handler's answer until it
  completes. \<open>None\<close> means that it never does.
\<close>

partial_function (option) drive ::
  "bool \<Rightarrow> ed25519 \<Rightarrow> Application \<Rightarrow> Params \<Rightarrow> BaseContext \<Rightarrow> ('tx, 'cs) coroutine
     \<Rightarrow> 'tx app_world \<Rightarrow> ((panic + (consensus_error + unit) \<times> 'cs) \<times> 'tx app_world) option" where
  "drive oc E self params ctx co w =
     (case co of
        Complete res st \<Rightarrow> Some (Inr (res, st), w)
      | Yield effect k \<Rightarrow>
          (case handle_effect oc E self params effect ctx w of
             (Inl p, w') \<Rightarrow> Some (Inl p, w')
           | (Inr answer, w') \<Rightarrow> drive oc E self params ctx (k answer) w'))"

definition apply_input ::
  "bool \<Rightarrow> ed25519 \<Rightarrow> ('tx, 'cs) consensus_lib \<Rightarrow> Application \<Rightarrow> 'tx Input \<Rightarrow> Params \<Rightarrow> 'cs \<Rightarrow> BaseContext
     \<Rightarrow> 'tx app_world \<Rightarrow> ((panic + (consensus_error + unit) \<times> 'cs) \<times> 'tx app_world) option" where
  "apply_input oc E lib self input params st ctx w =
     drive oc E self params ctx (process_input lib input st) w"

section \<open>What a peer may do to the channels\<close>

text \<open>
  \<open>peer_moves self params w w'\<close>: between \<open>w\<close> and \<open>w'\<close> only messages from \<open>self\<close> to itself or to a
  validator were appended to the network, only decision steps were appended (final ones only in
  the peer's own name), and proposals were taken from the front of their queue; the values that
  were proposed to the peer itself are among the values taken, in the same order.
\<close>

definition proposed_values :: "'tx Envelope list \<Rightarrow> 'tx BaseValue list" where
  "proposed_values es =
     concat (map (\<lambda>e. case payload e of Propose v \<Rightarrow> [vtp_value v] | _ \<Rightarrow> []) es)"

lemma proposed_values_append [simp]:
  "proposed_values (es @ es') = proposed_values es @ proposed_values es'"
  "proposed_values [] = []"
  by (simp_all add: proposed_values_def)

definition own_envelope :: "Application \<Rightarrow> Params \<Rightarrow> 'tx Envelope \<Rightarrow> bool" where
  "own_envelope self params e \<longleftrightarrow>
     source e = peer_id self \<and>
     (destination e = peer_id self \<or>
      destination e \<in> address ` set (peers (initial_validator_set params)))"

definition own_step :: "Application \<Rightarrow> 'tx DecisionStep \<Rightarrow> bool" where
  "own_step self d \<longleftrightarrow> (case d of Proposed _ \<Rightarrow> True | Finalized f \<Rightarrow> dec_peer f = peer_id self)"

definition peer_moves :: "Application \<Rightarrow> Params \<Rightarrow> 'tx app_world \<Rightarrow> 'tx app_world \<Rightarrow> bool" where
  "peer_moves self params w w' \<longleftrightarrow>
     (\<exists>es ds k.
        w' = \<lparr>network = (network w)\<lparr>items := items (network w) @ es\<rparr>,
              decision_steps = (decision_steps w)\<lparr>items := items (decision_steps w) @ ds\<rparr>,
              proposals = (proposals w)\<lparr>items := drop k (items (proposals w))\<rparr>\<rparr> \<and>
        (\<forall>e\<in>set es. own_envelope self params e) \<and> (\<forall>d\<in>set ds. own_step self d) \<and>
        subseq (proposed_values es) (take k (items (proposals w))))"

lemma peer_movesI:
  assumes "network w' = (network w)\<lparr>items := items (network w) @ es\<rparr>"
    and "decision_steps w' = (decision_steps w)\<lparr>items := items (decision_steps w) @ ds\<rparr>"
    and "proposals w' = (proposals w)\<lparr>items := drop k (items (proposals w))\<rparr>"
    and "\<And>e. e \<in> set es \<Longrightarrow> own_envelope self params e" and "\<And>d. d \<in> set ds \<Longrightarrow> own_step self d"
    and "subseq (proposed_values es) (take k (items (proposals w)))"
  shows "peer_moves self params w w'"
  unfolding peer_moves_def using assms
  by (intro exI[of _ es] exI[of _ ds] exI[of _ k]) simp

lemma peer_moves_refl [within_intros]: "reflp (peer_moves self params)"
  by (rule reflpI) (rule peer_movesI[where es = "[]" and ds = "[]" and k = 0]; simp)

lemma peer_moves_trans [within_intros]: "transp (peer_moves self params)"
proof (rule transpI)
  fix u v w :: "'tx app_world"
  assume "peer_moves self params u v" "peer_moves self params v w"
  then obtain es ds k es' ds' k' where
    v: "v = \<lparr>network = (network u)\<lparr>items := items (network u) @ es\<rparr>,
              decision_steps = (decision_steps u)\<lparr>items := items (decision_steps u) @ ds\<rparr>,
              proposals = (proposals u)\<lparr>items := drop k (items (proposals u))\<rparr>\<rparr>"
      "\<forall>e\<in>set es. own_envelope self params e" "\<forall>d\<in>set ds. own_step self d"
      "subseq (proposed_values es) (take k (items (proposals u)))" and
    w: "w = \<lparr>network = (network v)\<lparr>items := items (network v) @ es'\<rparr>,
              decision_steps = (decision_steps v)\<lparr>items := items (decision_steps v) @ ds'\<rparr>,
              proposals = (proposals v)\<lparr>items := drop k' (items (proposals v))\<rparr>\<rparr>"
      "\<forall>e\<in>set es'. own_envelope self params e" "\<forall>d\<in>set ds'. own_step self d"
      "subseq (proposed_values es') (take k' (items (proposals v)))"
    unfolding peer_moves_def by blast
  have "subseq (proposed_values (es @ es')) (take (k + k') (items (proposals u)))"
    unfolding take_add proposed_values_append
    using v w(4) by (intro list_emb_append_mono) simp_all
  then have vals: "subseq (proposed_values (es @ es')) (take (k' + k) (items (proposals u)))"
    by (simp only: add.commute)
  show "peer_moves self params u w"
    by (rule peer_movesI[where es = "es @ es'" and ds = "ds @ ds'" and k = "k' + k"])
       (use v w vals in auto)
qed

lemma network_send_within [within_intros]:
  "own_envelope self params e \<Longrightarrow> proposed_values [e] = [] \<Longrightarrow> within (peer_moves self params) (network_send e)"
  unfolding within_def network_send_def
  by (auto simp: chan_send_def reflpD[OF peer_moves_refl]
      intro!: peer_movesI[where es = "[e]" and ds = "[]" and k = 0])

lemma decision_send_within [within_intros]:
  "own_step self d \<Longrightarrow> within (peer_moves self params) (decision_send msg d)"
  unfolding within_def decision_send_def
  by (auto simp: chan_send_def reflpD[OF peer_moves_refl]
      intro!: peer_movesI[where es = "[]" and ds = "[d]" and k = 0])

lemma handle_schedule_timeout_within [within_intros]:
  "within (peer_moves self params) (handle_schedule_timeout self t)"
  unfolding handle_schedule_timeout_def
  by (auto simp: own_envelope_def proposed_values_def intro!: within_intros)

lemma publish_to_within [within_intros]:
  assumes "dest \<in> set (peers (initial_validator_set params))"
  shows "within (peer_moves self params) (publish_to self v dest)"
  using assms unfolding publish_to_def Let_def
  by (auto simp: own_envelope_def own_step_def proposed_values_def split: SignedConsensusMsg.splits
      intro!: within_intros)

lemma handle_publish_within [within_intros]:
  "within (peer_moves self params) (handle_publish self v params)"
  unfolding handle_publish_def by (intro within_intros)

lemma handle_decide_within [within_intros]:
  "within (peer_moves self params) (handle_decide oc self cert params)"
  unfolding handle_decide_def Let_def
  by (auto simp: own_envelope_def own_step_def proposed_values_def intro!: within_intros)

lemma handle_get_value_within [within_intros]:
  "within (peer_moves self params) (handle_get_value self h r)"
  unfolding within_def
proof
  fix w :: "'b app_world"
  show "peer_moves self params w (snd (handle_get_value self h r w))"
  proof (cases "items (proposals w)")
    case Nil
    then show ?thesis
      by (cases "tx_alive (proposals w)")
        (simp_all add: handle_get_value_def reflpD[OF peer_moves_refl])
  next
    case (Cons val rest)
    let ?e = "\<lparr>source = peer_id self, destination = peer_id self,
         payload = Propose \<lparr>vtp_height = h, vtp_round = r, vtp_valid_round = RoundNil,
                            vtp_value = val, vtp_extension = None\<rparr>\<rparr> :: 'b Envelope"
    show ?thesis
    proof (cases "rx_alive (network w)")
      case True
      with Cons show ?thesis
        by (intro peer_movesI[where es = "[?e]" and ds = "[]" and k = 1])
          (simp_all add: handle_get_value_def act_simps network_send_def own_envelope_def proposed_values_def)
    next
      case False
      with Cons show ?thesis
        by (intro peer_movesI[where es = "[]" and ds = "[]" and k = 1])
          (simp_all add: handle_get_value_def act_simps network_send_def)
    qed
  qed
qed

lemma handle_effect_within:
  "within (peer_moves self params) (handle_effect oc E self params effect ctx)"
  unfolding handle_effect_def by (cases effect) (auto intro!: within_intros)

section \<open>The panics of the handlers\<close>

text \<open>
  The panics that carrying out an effect can raise: a closed channel or a missing value
  (\<open>UnwrapErr\<close>), a consumer that has gone (the two \<open>expect\<close> messages), an effect without an
  implementation, and the overflow of the height. In particular none of them is a failed lookup.
\<close>

definition handler_panics :: "panic set" where
  "handler_panics =
     {UnwrapErr, ArithOverflow,
      Expect ''unable to communicate the next step for a decision'',
      Expect ''unable to send a decision'',
      PanicMsg ''unimplemented arm Effect::RestreamValue in match effect'',
      PanicMsg ''unimplemented arm Effect::GetVoteSet in match effect'',
      PanicMsg ''unimplemented arm Effect::SendVoteSetResponse in match effect'',
      PanicMsg ''unimplemented arm Effect::VerifyCertificate in match effect''}"

lemma handler_panics_members [panics_intros]:
  "UnwrapErr \<in> handler_panics"
  "Expect ''unable to communicate the next step for a decision'' \<in> handler_panics"
  "Expect ''unable to send a decision'' \<in> handler_panics"
  "PanicMsg ''unimplemented arm Effect::RestreamValue in match effect'' \<in> handler_panics"
  "PanicMsg ''unimplemented arm Effect::GetVoteSet in match effect'' \<in> handler_panics"
  "PanicMsg ''unimplemented arm Effect::SendVoteSetResponse in match effect'' \<in> handler_panics"
  "PanicMsg ''unimplemented arm Effect::VerifyCertificate in match effect'' \<in> handler_panics"
  by (simp_all add: handler_panics_def)

lemma network_send_panics [panics_intros]: "panics_in handler_panics (network_send e)"
  by (auto simp: panics_in_def network_send_def handler_panics_def split: sum.splits)

lemma decision_send_panics [panics_intros]:
  "Expect msg \<in> handler_panics \<Longrightarrow> panics_in handler_panics (decision_send msg d)"
  by (auto simp: panics_in_def decision_send_def split: sum.splits)

lemma increment_panics [panics_intros]: "panics_in handler_panics (lift (increment oc h))"
  by (auto simp: panics_in_def act_simps increment_def increment_by_def checked_plus_def
      handler_panics_def split: if_splits)

lemma handle_get_value_panics [panics_intros]: "panics_in handler_panics (handle_get_value self h r)"
  by (auto simp: panics_in_def handle_get_value_def chan_recv_def act_simps network_send_def
      handler_panics_def split: list.splits sum.splits if_splits)

lemma handle_effect_panics:
  assumes "params_address params = peer_id self"
  shows "panics_in handler_panics (handle_effect oc E self params effect ctx)"
  using assms unfolding handle_effect_def
  by (cases effect)
    (auto simp: handle_schedule_timeout_def handle_publish_def publish_to_def handle_decide_def
      Let_def split: SignedConsensusMsg.splits
      intro!: panics_intros)

section \<open>Driving the library\<close>

lemma drive_Complete [simp]: "drive oc E self params ctx (Complete r st) w = Some (Inr (r, st), w)"
  by (simp add: drive.simps)

lemma drive_Yield:
  "drive oc E self params ctx (Yield effect k) w =
     (case handle_effect oc E self params effect ctx w of
        (Inl p, w') \<Rightarrow> Some (Inl p, w')
      | (Inr answer, w') \<Rightarrow> drive oc E self params ctx (k answer) w')"
  by (subst drive.simps) simp

text \<open>
  Two facts about every run that returns, by one fixpoint induction: the run moves the channels
  as a peer may, and it panics only with the handlers' panics.
\<close>

definition drive_ok :: "Application \<Rightarrow> Params \<Rightarrow> 'tx app_world \<Rightarrow> (panic + 'a) \<times> 'tx app_world \<Rightarrow> bool" where
  "drive_ok self params w rw \<longleftrightarrow>
     peer_moves self params w (snd rw) \<and>
     (\<forall>p. params_address params = peer_id self \<longrightarrow> fst rw = Inl p \<longrightarrow> p \<in> handler_panics)"

lemma drive_ok_step:
  assumes "handle_effect oc E self params effect ctx w = (r1, w1)"
    and "case r1 of Inl p \<Rightarrow> rw = (Inl p, w1) | Inr answer \<Rightarrow> drive_ok self params w1 rw"
  shows "drive_ok self params w rw"
proof -
  have first: "peer_moves self params w w1" using assms(1) by (rule withinD[OF handle_effect_within])
  show ?thesis
  proof (cases r1)
    case (Inl p)
    have "params_address params = peer_id self \<Longrightarrow> p \<in> handler_panics"
      using handle_effect_panics assms(1) Inl by (metis panics_inD)
    with Inl assms(2) first show ?thesis by (simp add: drive_ok_def)
  next
    case (Inr answer)
    with assms(2) have "drive_ok self params w1 rw" by simp
    with first show ?thesis
      unfolding drive_ok_def by (blast intro: transpD[OF peer_moves_trans])
  qed
qed

lemma drive_runs_ok:
  assumes "drive oc E self params ctx co w = Some rw"
  shows "drive_ok self params w rw"
proof (rule drive.raw_induct
    [where P = "\<lambda>oc E self params ctx co w rw. drive_ok self params w rw", OF _ assms])
  fix f oc E self params ctx co w rw
  assume IH: "\<And>oc E self params ctx co w rw.
      f oc E self params ctx co w = Some rw \<Longrightarrow> drive_ok self params w rw"
    and run: "(case co of Complete res st \<Rightarrow> Some (Inr (res, st), w)
      | Yield effect k \<Rightarrow>
          (case handle_effect oc E self params effect ctx w of
             (Inl p, w') \<Rightarrow> Some (Inl p, w')
           | (Inr answer, w') \<Rightarrow> f oc E self params ctx (k answer) w')) = Some rw"
  show "drive_ok self params w rw"
  proof (cases co)
    case (Complete res st)
    with run show ?thesis by (auto simp: drive_ok_def reflpD[OF peer_moves_refl])
  next
    case (Yield effect k)
    obtain r1 w1 where one: "handle_effect oc E self params effect ctx w = (r1, w1)" by fastforce
    then show ?thesis
      by (rule drive_ok_step) (use run Yield one in \<open>auto split: sum.splits intro: IH\<close>)
  qed
qed

lemma drive_within:
  "drive oc E self params ctx co w = Some (r, w') \<Longrightarrow> peer_moves self params w w'"
  by (drule drive_runs_ok) (simp add: drive_ok_def)

lemma drive_panics:
  "drive oc E self params ctx co w = Some (Inl p, w') \<Longrightarrow> params_address params = peer_id self \<Longrightarrow>
     p \<in> handler_panics"
  by (drule drive_runs_ok) (simp add: drive_ok_def)

text \<open>Every call of the library that completes makes \<open>apply_input\<close> return.\<close>

lemma drive_returns:
  "completes co \<Longrightarrow> \<exists>rw. drive oc E self params ctx co w = Some rw"
proof (induction arbitrary: w rule: completes.induct)
  case (complete r s)
  then show ?case by simp
next
  case (yield k e)
  obtain r1 w1 where "handle_effect oc E self params e ctx w = (r1, w1)" by fastforce
  then show ?case
    using yield.IH by (cases r1) (auto simp: drive_Yield)
qed

section \<open>Broadcast\<close>

definition vote_envelope :: "Application \<Rightarrow> BaseVote SignedMessage \<Rightarrow> BasePeer \<Rightarrow> 'tx Envelope" where
  "vote_envelope self sv dest =
     \<lparr>source = peer_id self, destination = address dest, payload = InVote sv\<rparr>"

definition proposal_envelopes ::
  "Application \<Rightarrow> 'tx BaseProposal SignedMessage \<Rightarrow> BasePeer \<Rightarrow> 'tx Envelope list" where
  "proposal_envelopes self sp dest =
     [\<lparr>source = peer_id self, destination = address dest, payload = InProposal sp\<rparr>,
      \<lparr>source = peer_id self, destination = address dest,
       payload = InProposedValue (proposed_value_of sp) OriginConsensus\<rparr>]"

definition push_network :: "'tx Envelope list \<Rightarrow> 'tx app_world \<Rightarrow> 'tx app_world" where
  "push_network es w = w\<lparr>network := (network w)\<lparr>items := items (network w) @ es\<rparr>\<rparr>"

definition push_decisions :: "'tx DecisionStep list \<Rightarrow> 'tx app_world \<Rightarrow> 'tx app_world" where
  "push_decisions ds w = w\<lparr>decision_steps := (decision_steps w)\<lparr>items := items (decision_steps w) @ ds\<rparr>\<rparr>"

lemma push_simps [simp]:
  "push_network [] w = w"
  "push_decisions [] w = w"
  "push_network es' (push_network es w) = push_network (es @ es') w"
  "push_decisions ds' (push_decisions ds w) = push_decisions (ds @ ds') w"
  "push_decisions ds (push_network es w) = push_network es (push_decisions ds w)"
  "rx_alive (network (push_network es w)) = rx_alive (network w)"
  "rx_alive (network (push_decisions ds w)) = rx_alive (network w)"
  "rx_alive (decision_steps (push_network es w)) = rx_alive (decision_steps w)"
  "rx_alive (decision_steps (push_decisions ds w)) = rx_alive (decision_steps w)"
  by (simp_all add: push_network_def push_decisions_def)

lemma network_send_open [simp]:
  "rx_alive (network w) \<Longrightarrow> network_send e w = (Inr (), push_network [e] w)"
  "\<not> rx_alive (network w) \<Longrightarrow> network_send e w = (Inl UnwrapErr, w)"
  by (simp_all add: network_send_def push_network_def)

lemma decision_send_open [simp]:
  "rx_alive (decision_steps w) \<Longrightarrow> decision_send msg d w = (Inr (), push_decisions [d] w)"
  "\<not> rx_alive (decision_steps w) \<Longrightarrow> decision_send msg d w = (Inl (Expect msg), w)"
  by (simp_all add: decision_send_def push_decisions_def)

lemma publish_vote_loop:
  assumes "rx_alive (network w)"
  shows "foreach ps (publish_to self (SignedVote sv)) w =
    (Inr (), push_network (map (vote_envelope self sv) (filter (\<lambda>p. address p \<noteq> peer_id self) ps)) w)"
  using assms
  by (induction ps arbitrary: w) (auto simp: act_simps publish_to_def vote_envelope_def)

lemma publish_proposal_loop:
  assumes "rx_alive (network w)" and "rx_alive (decision_steps w)"
  shows "foreach ps (publish_to self (SignedProposal sp)) w =
    (Inr (), push_network (concat (map (proposal_envelopes self sp) ps))
               (push_decisions (replicate (length ps) (Proposed (proposed_value_of sp))) w))"
  using assms
proof (induction ps arbitrary: w)
  case Nil
  then show ?case by (simp add: act_simps)
next
  case (Cons p ps)
  then show ?case
    by (simp add: act_simps publish_to_def Let_def proposal_envelopes_def replicate_append_same[symmetric])
qed

section \<open>Properties of the application\<close>

definition toy_params :: "u32 \<Rightarrow> u32 \<Rightarrow> Params" where
  "toy_params sz a =
     \<lparr>initial_height = default_height, initial_validator_set = BasePeerSet_new sz (PublicKey []),
      params_address = BasePeerAddress a, threshold_params = DefaultThresholds, value_payload = ProposalOnly\<rparr>"

definition toy_world :: "'tx BaseValue list \<Rightarrow> 'tx app_world" where
  "toy_world vals =
     \<lparr>network = new_channel, decision_steps = new_channel, proposals = new_channel\<lparr>items := vals\<rparr>\<rparr>"

definition toy_vote :: "BaseVote SignedMessage" where
  "toy_vote = \<lparr>message = new_prevote (BaseHeight 3) (RoundSome 0) (Val (BaseValueId 1)) (BasePeerAddress 1),
               signature = Signature []\<rparr>"

definition toy_proposal :: "nat BaseProposal SignedMessage" where
  "toy_proposal =
     \<lparr>message = new_proposal (BaseHeight 3) (RoundSome 0) \<lparr>value_id_u64 = 1, transactions = [42]\<rparr> RoundNil (BasePeerAddress 0),
      signature = Signature []\<rparr>"

lemma toy_world_alive [simp]: "rx_alive (network (toy_world vals))" "rx_alive (decision_steps (toy_world vals))"
  by (simp_all add: toy_world_def new_channel_def)

lemma toy_peers:
  "peers (initial_validator_set (toy_params 4 a)) =
     [BasePeer_new 0 (PublicKey []), BasePeer_new 1 (PublicKey []), BasePeer_new 2 (PublicKey []), BasePeer_new 3 (PublicKey [])]"
  by (simp add: toy_params_def upt_rec)

text \<open>C29: publishing a vote sends it once to every other validator, in the order of the validator set,
  never to the peer itself, and announces nothing to the consumer.\<close>

theorem publish_vote_broadcasts:
  assumes "rx_alive (network w)"
  shows "handle_publish self (SignedVote sv) params w =
    (Inr (Inr Continue),
     push_network (map (vote_envelope self sv)
       (filter (\<lambda>p. address p \<noteq> peer_id self) (peers (initial_validator_set params)))) w)"
  using publish_vote_loop[OF assms] by (simp add: handle_publish_def act_simps)

theorem publish_vote_broadcasts_witness:
  "\<exists>w'. handle_publish \<lparr>peer_id = BasePeerAddress 1\<rparr> (SignedVote toy_vote) (toy_params 4 1) (toy_world ([] :: nat BaseValue list))
       = (Inr (Inr Continue), w') \<and>
     map (addr_u32 \<circ> destination) (items (network w')) = [0, 2, 3]"
  using publish_vote_broadcasts[OF toy_world_alive(1), of "\<lparr>peer_id = BasePeerAddress 1\<rparr>" toy_vote "toy_params 4 1" "[] :: nat BaseValue list"]
  by (simp add: toy_peers push_network_def toy_world_def new_channel_def vote_envelope_def address_def)

text \<open>C28: publishing a proposal sends to every validator, the proposer included, the signed proposal and
  then the proposed value, and announces the proposed value to the consumer once per validator.\<close>

theorem publish_proposal_broadcasts:
  assumes "rx_alive (network w)" and "rx_alive (decision_steps w)"
  shows "handle_publish self (SignedProposal sp) params w =
    (Inr (Inr Continue),
     push_network (concat (map (proposal_envelopes self sp) (peers (initial_validator_set params))))
       (push_decisions (replicate (count (initial_validator_set params)) (Proposed (proposed_value_of sp))) w))"
  using publish_proposal_loop[OF assms] by (simp add: handle_publish_def act_simps count_def)

theorem publish_proposal_broadcasts_witness:
  "\<exists>w'. handle_publish \<lparr>peer_id = BasePeerAddress 0\<rparr> (SignedProposal toy_proposal) (toy_params 4 0) (toy_world [])
       = (Inr (Inr Continue), w') \<and>
     map (addr_u32 \<circ> destination) (items (network w')) = [0, 0, 1, 1, 2, 2, 3, 3] \<and>
     length (items (decision_steps w')) = 4"
  using publish_proposal_broadcasts[OF toy_world_alive, of "\<lparr>peer_id = BasePeerAddress 0\<rparr>" toy_proposal "toy_params 4 0" "[]"]
  by (simp add: toy_peers push_network_def push_decisions_def toy_world_def new_channel_def proposal_envelopes_def
      address_def count_def)

text \<open>without a consumer, publishing a proposal panics at the first validator, after the signed
  proposal has been sent to that validator and to no one else.\<close>

theorem publish_proposal_without_consumer:
  assumes "rx_alive (network w)" and "\<not> rx_alive (decision_steps w)"
    and "peers (initial_validator_set params) = p # ps"
  shows "handle_publish self (SignedProposal sp) params w =
    (Inl (Expect ''unable to communicate the next step for a decision''),
     push_network [\<lparr>source = peer_id self, destination = address p, payload = InProposal sp\<rparr>] w)"
  using assms by (simp add: handle_publish_def act_simps publish_to_def Let_def)

theorem publish_proposal_without_consumer_witness:
  "\<exists>w'. handle_publish \<lparr>peer_id = BasePeerAddress 0\<rparr> (SignedProposal toy_proposal) (toy_params 4 0)
       ((toy_world [])\<lparr>decision_steps := new_channel\<lparr>rx_alive := False\<rparr>\<rparr>)
       = (Inl (Expect ''unable to communicate the next step for a decision''), w') \<and> length (items (network w')) = 1"
  using publish_proposal_without_consumer[of "(toy_world [])\<lparr>decision_steps := new_channel\<lparr>rx_alive := False\<rparr>\<rparr>" "toy_params 4 0"
      "BasePeer_new 0 (PublicKey [])" _ "\<lparr>peer_id = BasePeerAddress 0\<rparr>" toy_proposal]
  by (simp add: toy_peers push_network_def toy_world_def new_channel_def)

text \<open>C30: on a decision the peer reports the decided value and height in its own name to the consumer and
  schedules the next height for itself with the same validator set.\<close>

theorem decide_starts_next_height:
  assumes "rx_alive (network w)" and "rx_alive (decision_steps w)"
    and "unat (height_u64 (cert_height cert)) < 2 ^ 64 - 1"
  shows "\<exists>h'. unat (height_u64 h') = unat (height_u64 (cert_height cert)) + 1 \<and>
    handle_decide oc self cert params w =
      (Inr (Inr Continue),
       push_network [\<lparr>source = peer_id self, destination = peer_id self,
                      payload = StartHeight h' (initial_validator_set params)\<rparr>]
         (push_decisions [Finalized \<lparr>dec_peer = peer_id self, dec_value_id = cert_value_id cert,
                                      dec_height = cert_height cert\<rparr>] w))"
proof -
  obtain h' where "increment oc (cert_height cert) = Inr h'"
      "unat (height_u64 h') = unat (height_u64 (cert_height cert)) + 1"
    using assms(3) by (rule increment_exact)
  with assms(1,2) show ?thesis by (intro exI[of _ h']) (simp add: handle_decide_def act_simps Let_def)
qed

theorem decide_starts_next_height_witness:
  "\<exists>w'. handle_decide True \<lparr>peer_id = BasePeerAddress 2\<rparr> \<lparr>cert_height = BaseHeight 6, cert_value_id = BaseValueId 1\<rparr>
       (toy_params 4 2) (toy_world ([] :: nat BaseValue list)) = (Inr (Inr Continue), w') \<and>
     length (items (network w')) = 1 \<and> length (items (decision_steps w')) = 1"
  using decide_starts_next_height[OF toy_world_alive, of "\<lparr>cert_height = BaseHeight 6, cert_value_id = BaseValueId 1\<rparr>"
      True "\<lparr>peer_id = BasePeerAddress 2\<rparr>" "toy_params 4 2" "[] :: nat BaseValue list"]
  by (auto simp: push_network_def push_decisions_def toy_world_def new_channel_def)

text \<open>C31: asked for a value, the peer takes the oldest value that the block builder offers and proposes it
  to itself; when no value is ready it does not wait, as its comment says, but panics: the failed
  \<open>try_recv\<close> becomes an error that \<open>handle_effect\<close> unwraps.\<close>

theorem get_value_takes_or_panics:
  assumes "params_address params = peer_id self" and "rx_alive (network w)"
  shows "handle_effect oc E self params (GetValue h r) ctx w =
    (case items (proposals w) of
       [] \<Rightarrow> (Inl UnwrapErr, w)
     | val # rest \<Rightarrow>
         (Inr (Inr Continue),
          push_network [\<lparr>source = peer_id self, destination = peer_id self,
                         payload = Propose \<lparr>vtp_height = h, vtp_round = r, vtp_valid_round = RoundNil,
                                            vtp_value = val, vtp_extension = None\<rparr>\<rparr>]
            (w\<lparr>proposals := (proposals w)\<lparr>items := rest\<rparr>\<rparr>)))"
  using assms
  by (cases "items (proposals w)"; cases "tx_alive (proposals w)")
    (simp_all add: handle_effect_def handle_get_value_def act_simps)

theorem get_value_takes_or_panics_witness:
  "handle_effect True toy_ed25519 \<lparr>peer_id = BasePeerAddress 1\<rparr> (toy_params 4 1) (GetValue (BaseHeight 3) RoundNil)
       (BaseContext_new toy_ed25519 []) (toy_world ([] :: nat BaseValue list)) = (Inl UnwrapErr, toy_world [])"
  using get_value_takes_or_panics[OF _ toy_world_alive(1), of "toy_params 4 1" "\<lparr>peer_id = BasePeerAddress 1\<rparr>"
      True toy_ed25519 "BaseHeight 3" RoundNil "BaseContext_new toy_ed25519 []" "[] :: nat BaseValue list"]
  by (simp add: toy_params_def toy_world_def new_channel_def)

text \<open>\<open>apply_input\<close> returns whenever the library's coroutine completes under every answer: the loop
  around the effects does not make it run for ever.\<close>

theorem apply_input_returns:
  assumes "completes (process_input lib input st)"
  shows "\<exists>r w'. apply_input oc E lib self input params st ctx w = Some (r, w')"
  using drive_returns[OF assms] unfolding apply_input_def by (metis prod.collapse)

theorem apply_input_returns_witness:
  "\<exists>r w'. apply_input True toy_ed25519 (toy_lib (BaseContext_new toy_ed25519 [])) \<lparr>peer_id = BasePeerAddress 1\<rparr>
     (StartHeight (BaseHeight 0) (BasePeerSet_new 4 (PublicKey []))) (toy_params 4 1) (toy_params 4 1)
     (BaseContext_new toy_ed25519 []) (toy_world [\<lparr>value_id_u64 = 0, transactions = [9 :: nat]\<rparr>]) = Some (r, w')"
  using apply_input_returns[OF toy_lib_completes] by blast

text \<open>C32: whatever the library asks for, processing an input at a peer only appends to the network
  messages that come from that peer and go to itself or to a validator, only appends to the decision steps
  (decisions only in the peer's own name), and only takes values from the front of the proposals; it
  proposes no value that it did not take, none twice, and in the order in which they were offered.\<close>

theorem apply_input_confined:
  assumes "apply_input oc E lib self input params st ctx w = Some (r, w')"
  shows "\<exists>es ds k. items (network w') = items (network w) @ es \<and>
    (\<forall>e\<in>set es. source e = peer_id self \<and>
       destination e \<in> insert (peer_id self) (address ` set (peers (initial_validator_set params)))) \<and>
    items (decision_steps w') = items (decision_steps w) @ ds \<and>
    (\<forall>f. Finalized f \<in> set ds \<longrightarrow> dec_peer f = peer_id self) \<and>
    items (proposals w') = drop k (items (proposals w)) \<and>
    subseq (proposed_values es) (take k (items (proposals w)))"
proof -
  have "peer_moves self params w w'" using assms unfolding apply_input_def by (rule drive_within)
  then obtain es ds k where "w' = \<lparr>network = (network w)\<lparr>items := items (network w) @ es\<rparr>,
              decision_steps = (decision_steps w)\<lparr>items := items (decision_steps w) @ ds\<rparr>,
              proposals = (proposals w)\<lparr>items := drop k (items (proposals w))\<rparr>\<rparr>"
    and "\<forall>e\<in>set es. own_envelope self params e" and "\<forall>d\<in>set ds. own_step self d"
    and "subseq (proposed_values es) (take k (items (proposals w)))"
    unfolding peer_moves_def by blast
  then show ?thesis
    by (intro exI[of _ es] exI[of _ ds] exI[of _ k]) (fastforce simp: own_envelope_def own_step_def)
qed

theorem apply_input_confined_witness:
  "\<exists>w' es. apply_input True toy_ed25519 (toy_lib (BaseContext_new toy_ed25519 [])) \<lparr>peer_id = BasePeerAddress 1\<rparr>
     (TimeoutElapsed \<lparr>timeout_round = RoundNil, timeout_kind = TimeoutCommit\<rparr>) (toy_params 4 1) (toy_params 4 1)
     (BaseContext_new toy_ed25519 []) (toy_world ([] :: nat BaseValue list)) = Some (Inr (Inr (), toy_params 4 1), w') \<and>
     items (network w') = [] @ es \<and> (\<forall>e\<in>set es. source e = BasePeerAddress 1)"
proof -
  let ?w = "toy_world ([] :: nat BaseValue list)"
  have run: "apply_input True toy_ed25519 (toy_lib (BaseContext_new toy_ed25519 [])) \<lparr>peer_id = BasePeerAddress 1\<rparr>
     (TimeoutElapsed \<lparr>timeout_round = RoundNil, timeout_kind = TimeoutCommit\<rparr>) (toy_params 4 1) (toy_params 4 1)
     (BaseContext_new toy_ed25519 []) ?w = Some (Inr (Inr (), toy_params 4 1), ?w)"
    by (simp add: apply_input_def toy_lib_def)
  have "items (network ?w) = []" by (simp add: toy_world_def new_channel_def)
  with run apply_input_confined[OF run] show ?thesis by (intro exI[of _ ?w] exI[of _ "[]"]) auto
qed

end
