(* ===== verification/Simulator.thy ===== *)
theory Simulator
  imports Application
begin

text \<open>
  \<open>chain/simulator.rs\<close>: the simulated network of peers.

  \<open>Simulator\<close> keeps, per peer address, the parameters, the metrics and the application. The
  consensus states of the peers are a vector beside it, and the channels are the world of the
  applications; \<open>sim_sys\<close> is the three together. A step takes the oldest envelope from the
  network and lets the application of its destination process it. The step relation
  \<open>sim_move\<close> adds what the other threads do to the shared channels: the block builder offers
  values, the consumer takes decision steps, and either of them may go away.
\<close>

section \<open>Definitions\<close>

text \<open>\<open>common::new_metrics\<close> registers fresh metrics; they are only handed to the library.\<close>

datatype Metrics = Metrics

definition new_metrics :: Metrics where
  "new_metrics = Metrics"

record Simulator =
  sim_params :: "BasePeerAddress \<rightharpoonup> Params"
  sim_metrics :: "BasePeerAddress \<rightharpoonup> Metrics"
  sim_apps :: "BasePeerAddress \<rightharpoonup> Application"

record ('tx, 'cs) sim_sys =
  sim :: Simulator
  states :: "'cs list"
  world :: "'tx app_world"

subsection \<open>Simulator::new\<close>

definition new_params :: "BasePeerSet \<Rightarrow> BasePeerAddress \<Rightarrow> Params" where
  "new_params val_set a =
     \<lparr>initial_height = default_height, initial_validator_set = val_set, params_address = a,
      threshold_params = DefaultThresholds, value_payload = ProposalOnly\<rparr>"

text \<open>One iteration of the loop over the peers.\<close>

definition add_peer ::
  "('tx, 'cs) consensus_lib \<Rightarrow> BaseContext \<Rightarrow> BasePeerSet \<Rightarrow> u32
     \<Rightarrow> Simulator \<times> 'cs list \<Rightarrow> Simulator \<times> 'cs list" where
  "add_peer lib ctx val_set i = (\<lambda>(sm, sts).
     let peer_addr = BasePeerAddress_new i; p = new_params val_set peer_addr in
     (sm\<lparr>sim_params := (sim_params sm)(peer_addr \<mapsto> p),
         sim_apps := (sim_apps sm)(peer_addr \<mapsto> \<lparr>peer_id = peer_addr\<rparr>)\<rparr>,
      sts @ [state_new lib ctx p]))"

definition Simulator_new ::
  "ed25519 \<Rightarrow> bytes \<Rightarrow> ('tx, 'cs) consensus_lib \<Rightarrow> u32 \<Rightarrow> 'tx DecisionStep channel
     \<Rightarrow> panic + ('tx, 'cs) sim_sys" where
  "Simulator_new E rng lib sz dtx =
     (if \<not> 4 \<le> sz then Inl AssertFailed
      else if \<not> sz < 25 then Inl AssertFailed
      else
        let ctx = BaseContext_new E rng;
            val_set = BasePeerSet_new sz (shared_public_key E ctx);
            (sm, sts) = fold (\<lambda>i. add_peer lib ctx val_set (of_nat i)) [0..<unat sz]
              (\<lparr>sim_params = Map.empty, sim_metrics = Map.empty, sim_apps = Map.empty\<rparr>, [])
        in Inr \<lparr>sim = sm, states = sts,
                world = \<lparr>network = new_channel, decision_steps = dtx, proposals = new_channel\<rparr>\<rparr>)"

subsection \<open>initialize\_system\<close>

definition init_peer :: "('tx, 'cs) consensus_lib \<Rightarrow> 'cs \<Rightarrow> (('tx, 'cs) sim_sys, unit) act" where
  "init_peer lib st s =
     (let peer_addr = params_address (state_params lib st) in
      case sim_params (sim s) peer_addr of
        None \<Rightarrow> (Inl (Expect ''could not identify peer at next position''), s)
      | Some peer_params \<Rightarrow>
          let s1 = s\<lparr>sim := (sim s)\<lparr>sim_metrics := (sim_metrics (sim s))(peer_addr \<mapsto> new_metrics)\<rparr>\<rparr> in
          case sim_apps (sim s1) peer_addr of
            None \<Rightarrow> (Inl (Expect ''app not found''), s1)
          | Some app \<Rightarrow>
              (case app_init app (initial_validator_set peer_params) (world s1) of
                 (r, w) \<Rightarrow> (r, s1\<lparr>world := w\<rparr>)))"

definition initialize_system :: "('tx, 'cs) consensus_lib \<Rightarrow> (('tx, 'cs) sim_sys, unit) act" where
  "initialize_system lib s = foreach (states s) (init_peer lib) s"

subsection \<open>step\<close>

definition step_with_envelope ::
  "bool \<Rightarrow> ed25519 \<Rightarrow> ('tx, 'cs) consensus_lib \<Rightarrow> 'tx Envelope \<Rightarrow> ('tx, 'cs) sim_sys
     \<Rightarrow> ((panic + unit) \<times> ('tx, 'cs) sim_sys) option" where
  "step_with_envelope oc E lib envelope s =
     (let peer_addr = destination envelope; i = unat (addr_u32 peer_addr) in
      if \<not> i < length (states s) then Some (Inl UnwrapNone, s)
      else case sim_params (sim s) peer_addr of None \<Rightarrow> Some (Inl UnwrapNone, s) | Some params \<Rightarrow>
           case sim_metrics (sim s) peer_addr of None \<Rightarrow> Some (Inl UnwrapNone, s) | Some metrics \<Rightarrow>
           case sim_apps (sim s) peer_addr of None \<Rightarrow> Some (Inl UnwrapNone, s) | Some application \<Rightarrow>
           (case apply_input oc E lib application (payload envelope) params (states s ! i)
                   (state_ctx lib (states s ! i)) (world s) of
              None \<Rightarrow> None
            | Some (Inl p, w) \<Rightarrow> Some (Inl p, s\<lparr>world := w\<rparr>)
            | Some (Inr (Inl err, st), w) \<Rightarrow>
                Some (Inl (Expect ''unknown error during process_peer''),
                      s\<lparr>states := (states s)[i := st], world := w\<rparr>)
            | Some (Inr (Inr _, st), w) \<Rightarrow>
                Some (Inr (), s\<lparr>states := (states s)[i := st], world := w\<rparr>)))"

text \<open>\<open>recv\<close> blocks on an empty network; a disconnected network is logged and skipped.\<close>

datatype 's step_result = Blocked | Ran "panic + unit" 's

definition sim_step ::
  "bool \<Rightarrow> ed25519 \<Rightarrow> ('tx, 'cs) consensus_lib \<Rightarrow> ('tx, 'cs) sim_sys
     \<Rightarrow> ('tx, 'cs) sim_sys step_result option" where
  "sim_step oc E lib s =
     (case chan_recv (network (world s)) of
        (Item envelope, ch) \<Rightarrow>
          map_option (\<lambda>(r, s'). Ran r s')
            (step_with_envelope oc E lib envelope (s\<lparr>world := (world s)\<lparr>network := ch\<rparr>\<rparr>))
      | (Empty, _) \<Rightarrow> Some Blocked
      | (Disconnected, _) \<Rightarrow> Some (Ran (Inr ()) s))"

subsection \<open>The simulator among the other threads\<close>

inductive env_move :: "'tx app_world \<Rightarrow> 'tx app_world \<Rightarrow> bool" where
  offer: "chan_send_bounded 1 v (proposals w) = BSent ch \<Longrightarrow> env_move w (w\<lparr>proposals := ch\<rparr>)"
| builder_gone: "env_move w (w\<lparr>proposals := (proposals w)\<lparr>tx_alive := False\<rparr>\<rparr>)"
| consume: "chan_recv (decision_steps w) = (Item d, ch) \<Longrightarrow> env_move w (w\<lparr>decision_steps := ch\<rparr>)"
| consumer_gone: "env_move w (w\<lparr>decision_steps := (decision_steps w)\<lparr>rx_alive := False\<rparr>\<rparr>)"

inductive sim_move ::
  "bool \<Rightarrow> ed25519 \<Rightarrow> ('tx, 'cs) consensus_lib \<Rightarrow> ('tx, 'cs) sim_sys \<Rightarrow> ('tx, 'cs) sim_sys \<Rightarrow> bool"
  for oc E lib where
  step: "sim_step oc E lib s = Some (Ran (Inr ()) s') \<Longrightarrow> sim_move oc E lib s s'"
| env: "env_move (world s) w \<Longrightarrow> sim_move oc E lib s (s\<lparr>world := w\<rparr>)"

text \<open>\<open>k\<close> successful steps of the simulator, with any activity of the other threads in between.\<close>

inductive sim_trace ::
  "bool \<Rightarrow> ed25519 \<Rightarrow> ('tx, 'cs) consensus_lib \<Rightarrow> nat \<Rightarrow> ('tx, 'cs) sim_sys \<Rightarrow> ('tx, 'cs) sim_sys \<Rightarrow> bool"
  for oc E lib where
  none: "sim_trace oc E lib 0 s s"
| step: "sim_trace oc E lib k s s' \<Longrightarrow> sim_step oc E lib s' = Some (Ran (Inr ()) s'') \<Longrightarrow>
    sim_trace oc E lib (Suc k) s s''"
| env: "sim_trace oc E lib k s s' \<Longrightarrow> env_move (world s') w \<Longrightarrow>
    sim_trace oc E lib k s (s'\<lparr>world := w\<rparr>)"

text \<open>\<open>run\<close>: initialise the system, then step for ever.\<close>

inductive sim_reachable ::
  "bool \<Rightarrow> ed25519 \<Rightarrow> bytes \<Rightarrow> ('tx, 'cs) consensus_lib \<Rightarrow> u32 \<Rightarrow> ('tx, 'cs) sim_sys \<Rightarrow> bool"
  for oc E rng lib sz where
  start: "Simulator_new E rng lib sz dtx = Inr s0 \<Longrightarrow> initialize_system lib s0 = (Inr (), s) \<Longrightarrow>
    sim_reachable oc E rng lib sz s"
| move: "sim_reachable oc E rng lib sz s \<Longrightarrow> sim_move oc E lib s s' \<Longrightarrow>
    sim_reachable oc E rng lib sz s'"

section \<open>Construction and initialisation\<close>

text \<open>
  What the simulator relies on from the library's \<open>State::new\<close>: the state keeps the parameters it
  was made with.
\<close>

definition lib_keeps_params :: "('tx, 'cs) consensus_lib \<Rightarrow> bool" where
  "lib_keeps_params lib \<longleftrightarrow> (\<forall>ctx p. state_params lib (state_new lib ctx p) = p)"

lemma addr_lt_iff:
  assumes "n < 2 ^ 32"
  shows "unat (addr_u32 a) < Suc n \<longleftrightarrow> unat (addr_u32 a) < n \<or> a = BasePeerAddress (of_nat n)"
proof -
  have "unat (addr_u32 a) = n \<longleftrightarrow> addr_u32 a = of_nat n"
    using assms by (auto simp: word_unat_eq_iff unsigned_of_nat take_bit_nat_eq_self)
  then show ?thesis by (cases a) (auto simp: less_Suc_eq)
qed

lemma fold_add_peer:
  assumes "n \<le> 2 ^ 32"
  shows "fold (\<lambda>i. add_peer lib ctx vs (of_nat i)) [0..<n]
      (\<lparr>sim_params = Map.empty, sim_metrics = Map.empty, sim_apps = Map.empty\<rparr>, []) =
    (\<lparr>sim_params = (\<lambda>a. if unat (addr_u32 a) < n then Some (new_params vs a) else None),
      sim_metrics = Map.empty,
      sim_apps = (\<lambda>a. if unat (addr_u32 a) < n then Some \<lparr>peer_id = a\<rparr> else None)\<rparr>,
     map (\<lambda>i. state_new lib ctx (new_params vs (BasePeerAddress (of_nat i)))) [0..<n])"
  using assms
proof (induction n)
  case 0
  then show ?case by (simp add: fun_eq_iff)
next
  case (Suc n)
  then have n: "n < 2 ^ 32" by simp
  show ?case
    unfolding upt_Suc fold_append comp_def
    using Suc by (auto simp: add_peer_def BasePeerAddress_new_def fun_eq_iff Let_def addr_lt_iff[OF n])
qed

definition start_envelope :: "BasePeerSet \<Rightarrow> BasePeerAddress \<Rightarrow> 'tx Envelope" where
  "start_envelope vs a = \<lparr>source = a, destination = a, payload = StartHeight (BaseHeight 0) vs\<rparr>"

lemma init_loop:
  assumes "rx_alive (network (world s))"
    and "\<And>st. st \<in> set sts \<Longrightarrow>
      sim_params (sim s) (params_address (state_params lib st)) = Some (new_params vs (params_address (state_params lib st))) \<and>
      sim_apps (sim s) (params_address (state_params lib st)) = Some \<lparr>peer_id = params_address (state_params lib st)\<rparr>"
  shows "foreach sts (init_peer lib) s =
    (Inr (), s\<lparr>sim := (sim s)\<lparr>sim_metrics :=
                 (\<lambda>a. if a \<in> params_address ` state_params lib ` set sts then Some Metrics
                      else sim_metrics (sim s) a)\<rparr>,
             world := push_network
                 (map (\<lambda>st. start_envelope vs (params_address (state_params lib st))) sts) (world s)\<rparr>)"
  using assms
proof (induction sts arbitrary: s)
  case Nil
  then show ?case by (simp add: act_simps)
next
  case (Cons st sts)
  let ?a = "params_address (state_params lib st)"
  let ?s1 = "s\<lparr>sim := (sim s)\<lparr>sim_metrics := (sim_metrics (sim s))(?a \<mapsto> Metrics)\<rparr>,
               world := push_network [start_envelope vs ?a] (world s)\<rparr>"
  have "init_peer lib st s = (Inr (), ?s1)"
    using Cons.prems
    by (simp add: init_peer_def app_init_def start_envelope_def new_metrics_def new_params_def Let_def)
  moreover have "foreach sts (init_peer lib) ?s1 =
    (Inr (), ?s1\<lparr>sim := (sim ?s1)\<lparr>sim_metrics :=
                 (\<lambda>a. if a \<in> params_address ` state_params lib ` set sts then Some Metrics
                      else sim_metrics (sim ?s1) a)\<rparr>,
             world := push_network
                 (map (\<lambda>st. start_envelope vs (params_address (state_params lib st))) sts) (world ?s1)\<rparr>)"
    by (rule Cons.IH) (use Cons.prems in simp_all)
  ultimately show ?case by (auto simp: act_simps fun_eq_iff)
qed

text \<open>
  The state after \<open>new\<close> and \<open>initialize_system\<close> written out: every peer has parameters, metrics
  and an application under its own address, and one start message waits per peer.
\<close>

definition started_system ::
  "ed25519 \<Rightarrow> bytes \<Rightarrow> ('tx, 'cs) consensus_lib \<Rightarrow> u32 \<Rightarrow> 'tx DecisionStep channel \<Rightarrow> ('tx, 'cs) sim_sys" where
  "started_system E rng lib sz dtx =
     (let ctx = BaseContext_new E rng; vs = BasePeerSet_new sz (shared_public_key E ctx) in
      \<lparr>sim = \<lparr>sim_params = (\<lambda>a. if unat (addr_u32 a) < unat sz then Some (new_params vs a) else None),
              sim_metrics = (\<lambda>a. if unat (addr_u32 a) < unat sz then Some Metrics else None),
              sim_apps = (\<lambda>a. if unat (addr_u32 a) < unat sz then Some \<lparr>peer_id = a\<rparr> else None)\<rparr>,
       states = map (\<lambda>i. state_new lib ctx (new_params vs (BasePeerAddress (of_nat i)))) [0..<unat sz],
       world = \<lparr>network = new_channel\<lparr>items :=
                  map (\<lambda>i. start_envelope vs (BasePeerAddress (of_nat i))) [0..<unat sz]\<rparr>,
                decision_steps = dtx, proposals = new_channel\<rparr>\<rparr>)"

lemma addr_image:
  assumes "n \<le> 2 ^ 32"
  shows "(\<lambda>i. BasePeerAddress (of_nat i)) ` {0..<n} = {a. unat (addr_u32 a) < n}"
proof (intro equalityI subsetI)
  fix a
  assume "a \<in> {a. unat (addr_u32 a) < n}"
  then show "a \<in> (\<lambda>i. BasePeerAddress (of_nat i)) ` {0..<n}"
    by (intro image_eqI[of _ _ "unat (addr_u32 a)"]) simp_all
next
  fix a
  assume "a \<in> (\<lambda>i. BasePeerAddress (of_nat i)) ` {0..<n}"
  then show "a \<in> {a. unat (addr_u32 a) < n}"
    using assms by (auto simp: unsigned_of_nat take_bit_nat_eq_self)
qed

lemma new_then_initialize:
  assumes keeps: "lib_keeps_params lib" and sz: "4 \<le> sz" "sz < 25"
  shows "\<exists>s0. Simulator_new E rng lib sz dtx = Inr s0 \<and>
              initialize_system lib s0 = (Inr (), started_system E rng lib sz dtx)"
proof -
  define ctx where "ctx = BaseContext_new E rng"
  define vs where "vs = BasePeerSet_new sz (shared_public_key E ctx)"
  have n: "unat sz \<le> 2 ^ 32" using unat_u32[of sz] by simp
  let ?addr = "\<lambda>i. BasePeerAddress (of_nat i)"
  let ?st = "\<lambda>i. state_new lib ctx (new_params vs (?addr i))"
  obtain s0 where new: "Simulator_new E rng lib sz dtx = Inr s0"
    and s0: "s0 = \<lparr>sim = \<lparr>sim_params = (\<lambda>a. if unat (addr_u32 a) < unat sz then Some (new_params vs a) else None),
      sim_metrics = Map.empty,
      sim_apps = (\<lambda>a. if unat (addr_u32 a) < unat sz then Some \<lparr>peer_id = a\<rparr> else None)\<rparr>,
     states = map ?st [0..<unat sz],
     world = \<lparr>network = new_channel, decision_steps = dtx, proposals = new_channel\<rparr>\<rparr>"
    using sz
    unfolding Simulator_new_def Let_def ctx_def[symmetric] vs_def[symmetric] fold_add_peer[OF n]
    by simp
  have param: "params_address (state_params lib (?st i)) = ?addr i" for i
    using keeps by (simp add: lib_keeps_params_def new_params_def)
  have lt: "unat (of_nat i :: u32) < unat sz" if "i < unat sz" for i
    using that n by (simp add: unsigned_of_nat take_bit_nat_eq_self)
  have img: "params_address ` state_params lib ` ?st ` {0..<unat sz} = {a. unat (addr_u32 a) < unat sz}"
    unfolding addr_image[OF n, symmetric] by (simp add: image_image param)
  have "foreach (states s0) (init_peer lib) s0 =
    (Inr (), s0\<lparr>sim := (sim s0)\<lparr>sim_metrics :=
        (\<lambda>a. if a \<in> params_address ` state_params lib ` set (states s0) then Some Metrics
             else sim_metrics (sim s0) a)\<rparr>,
      world := push_network
        (map (\<lambda>st. start_envelope vs (params_address (state_params lib st))) (states s0)) (world s0)\<rparr>)"
    by (rule init_loop) (auto simp: s0 new_channel_def param lt)
  then have "initialize_system lib s0 = (Inr (), started_system E rng lib sz dtx)"
    unfolding initialize_system_def started_system_def Let_def ctx_def[symmetric] vs_def[symmetric]
    by (auto simp: s0 push_network_def new_channel_def param img comp_def fun_eq_iff)
  with new show ?thesis by blast
qed

section \<open>The invariant of the simulator\<close>

abbreviation in_system :: "u32 \<Rightarrow> BasePeerAddress \<Rightarrow> bool" where
  "in_system sz a \<equiv> unat (addr_u32 a) < unat sz"

definition peer_ok :: "u32 \<Rightarrow> Simulator \<Rightarrow> BasePeerAddress \<Rightarrow> bool" where
  "peer_ok sz sm a \<longleftrightarrow>
     (\<exists>p. sim_params sm a = Some p \<and> params_address p = a \<and>
          (\<forall>v\<in>set (peers (initial_validator_set p)). in_system sz (address v))) \<and>
     sim_metrics sm a = Some Metrics \<and> sim_apps sm a = Some \<lparr>peer_id = a\<rparr>"

definition world_ok :: "u32 \<Rightarrow> 'tx app_world \<Rightarrow> bool" where
  "world_ok sz w \<longleftrightarrow>
     (\<forall>e\<in>set (items (network w)). in_system sz (source e) \<and> in_system sz (destination e)) \<and>
     rx_alive (network w) \<and> tx_alive (network w) \<and> length (items (proposals w)) \<le> 1"

definition sim_inv :: "u32 \<Rightarrow> ('tx, 'cs) sim_sys \<Rightarrow> bool" where
  "sim_inv sz s \<longleftrightarrow>
     length (states s) = unat sz \<and> (\<forall>a. in_system sz a \<longrightarrow> peer_ok sz (sim s) a) \<and> world_ok sz (world s)"

lemma started_inv: "sim_inv sz (started_system E rng lib sz dtx)"
proof -
  have n: "unat sz \<le> 2 ^ 32" using unat_u32[of sz] by simp
  have lt: "unat (of_nat i :: u32) < unat sz" if "i < unat sz" for i
    using that n by (simp add: unsigned_of_nat take_bit_nat_eq_self)
  show ?thesis
    by (auto simp: sim_inv_def peer_ok_def world_ok_def started_system_def Let_def new_channel_def
        new_params_def start_envelope_def address_def lt)
qed

lemma world_ok_peer_moves:
  assumes "peer_moves \<lparr>peer_id = a\<rparr> params w w'" and "world_ok sz w" and "in_system sz a"
    and "\<forall>v\<in>set (peers (initial_validator_set params)). in_system sz (address v)"
  shows "world_ok sz w'"
proof -
  have "in_system sz (source e) \<and> in_system sz (destination e)"
    if "own_envelope \<lparr>peer_id = a\<rparr> params e" for e :: "'a Envelope"
    using that assms(3,4) by (auto simp: own_envelope_def)
  with assms(1,2) show ?thesis by (auto simp: peer_moves_def world_ok_def)
qed

lemma world_ok_env_move: "env_move w w' \<Longrightarrow> world_ok sz w \<Longrightarrow> world_ok sz w'"
  by (induction rule: env_move.induct)
    (auto simp: world_ok_def chan_send_bounded_def le_Suc_eq chan_recv_def
      split: if_splits list.splits)

text \<open>One step from a state of the invariant, with the lookups resolved.\<close>

definition after_input ::
  "nat \<Rightarrow> ('tx, 'cs) sim_sys \<Rightarrow> (panic + (consensus_error + unit) \<times> 'cs) \<times> 'tx app_world
     \<Rightarrow> ('tx, 'cs) sim_sys step_result" where
  "after_input i s rw =
     (case rw of
        (Inl p, w) \<Rightarrow> Ran (Inl p) (s\<lparr>world := w\<rparr>)
      | (Inr (Inl err, st), w) \<Rightarrow>
          Ran (Inl (Expect ''unknown error during process_peer''))
            (s\<lparr>states := (states s)[i := st], world := w\<rparr>)
      | (Inr (Inr _, st), w) \<Rightarrow> Ran (Inr ()) (s\<lparr>states := (states s)[i := st], world := w\<rparr>))"

lemma sim_step_inv_cases:
  assumes inv: "sim_inv sz s" and net: "items (network (world s)) = e # rest"
  obtains p where "sim_params (sim s) (destination e) = Some p"
    "params_address p = destination e"
    "\<forall>v\<in>set (peers (initial_validator_set p)). in_system sz (address v)"
    "unat (addr_u32 (destination e)) < length (states s)"
    "sim_step oc E lib s =
       map_option (after_input (unat (addr_u32 (destination e))) s)
         (apply_input oc E lib \<lparr>peer_id = destination e\<rparr> (payload e) p
            (states s ! unat (addr_u32 (destination e)))
            (state_ctx lib (states s ! unat (addr_u32 (destination e))))
            ((world s)\<lparr>network := (network (world s))\<lparr>items := rest\<rparr>\<rparr>))"
proof -
  from inv net have dest: "in_system sz (destination e)" by (simp add: sim_inv_def world_ok_def)
  with inv have "peer_ok sz (sim s) (destination e)" by (simp add: sim_inv_def)
  then obtain p where p: "sim_params (sim s) (destination e) = Some p" "params_address p = destination e"
    "\<forall>v\<in>set (peers (initial_validator_set p)). in_system sz (address v)"
    and rest: "sim_metrics (sim s) (destination e) = Some Metrics"
      "sim_apps (sim s) (destination e) = Some \<lparr>peer_id = destination e\<rparr>"
    by (auto simp: peer_ok_def)
  from dest inv have i: "unat (addr_u32 (destination e)) < length (states s)"
    by (simp add: sim_inv_def)
  show thesis
    by (rule that[OF p i])
      (use p rest i net in \<open>auto simp: sim_step_def step_with_envelope_def Let_def after_input_def
        option.map_comp split: option.splits sum.splits prod.splits\<close>)
qed

section \<open>Every reachable state satisfies the invariant\<close>

text \<open>
  What a step leaves: the oldest envelope is gone, the messages its handling sent are queued
  behind the others, the tables of the simulator are untouched.
\<close>

lemma sim_step_Ran:
  assumes inv: "sim_inv sz s" and run: "sim_step oc E lib s = Some (Ran r s')"
  obtains e rest es k where "items (network (world s)) = e # rest"
    and "items (network (world s')) = rest @ es"
    and "\<forall>x\<in>set es. source x = destination e"
    and "sim_inv sz s'"
    and "items (proposals (world s')) = drop k (items (proposals (world s)))"
    and "subseq (proposed_values es) (take k (items (proposals (world s))))"
    and "\<And>p. r = Inl p \<Longrightarrow> p \<in> handler_panics \<union> {Expect ''unknown error during process_peer''}"
    and "\<exists>ds. decision_steps (world s') = (decision_steps (world s))\<lparr>items := items (decision_steps (world s)) @ ds\<rparr>"
    and "\<exists>vs. proposals (world s') = (proposals (world s))\<lparr>items := vs\<rparr>"
proof -
  have alive: "tx_alive (network (world s))" using inv by (simp add: sim_inv_def world_ok_def)
  have "items (network (world s)) \<noteq> []"
    using run alive by (auto simp: sim_step_def)
  then obtain e rest where net: "items (network (world s)) = e # rest"
    by (cases "items (network (world s))") auto
  let ?a = "destination e"
  let ?w0 = "(world s)\<lparr>network := (network (world s))\<lparr>items := rest\<rparr>\<rparr>"
  from inv net have dest: "in_system sz ?a" and w0: "world_ok sz ?w0"
    by (auto simp: sim_inv_def world_ok_def)
  obtain p where p: "params_address p = ?a"
      "\<forall>v\<in>set (peers (initial_validator_set p)). in_system sz (address v)"
    and step: "sim_step oc E lib s =
       map_option (after_input (unat (addr_u32 ?a)) s)
         (apply_input oc E lib \<lparr>peer_id = ?a\<rparr> (payload e) p (states s ! unat (addr_u32 ?a))
            (state_ctx lib (states s ! unat (addr_u32 ?a))) ?w0)"
    using inv net by (rule sim_step_inv_cases)
  obtain res w where app: "apply_input oc E lib \<lparr>peer_id = ?a\<rparr> (payload e) p
        (states s ! unat (addr_u32 ?a)) (state_ctx lib (states s ! unat (addr_u32 ?a))) ?w0 = Some (res, w)"
      and after: "after_input (unat (addr_u32 ?a)) s (res, w) = Ran r s'"
    using run unfolding step map_option_eq_Some by auto
  have moves: "peer_moves \<lparr>peer_id = ?a\<rparr> p ?w0 w"
    using app unfolding apply_input_def by (rule drive_within)
  then obtain es k where es: "items (network w) = rest @ es" "\<forall>x\<in>set es. source x = ?a"
      "items (proposals w) = drop k (items (proposals (world s)))"
      "subseq (proposed_values es) (take k (items (proposals (world s))))"
    by (auto simp: peer_moves_def own_envelope_def)
  from moves have chans: "\<exists>ds. decision_steps w = (decision_steps (world s))\<lparr>items := items (decision_steps (world s)) @ ds\<rparr>"
    "\<exists>vs. proposals w = (proposals (world s))\<lparr>items := vs\<rparr>"
    by (auto simp: peer_moves_def)
  from moves w0 dest p(2) have w: "world_ok sz w" by (rule world_ok_peer_moves)
  from after have s': "world s' = w" "sim s' = sim s" "length (states s') = length (states s)"
    by (auto simp: after_input_def split: sum.splits prod.splits)
  have panics: "q \<in> handler_panics \<union> {Expect ''unknown error during process_peer''}" if "r = Inl q" for q
  proof (cases res)
    case (Inl q')
    with app p(1) have "q' \<in> handler_panics"
      unfolding apply_input_def by (auto intro: drive_panics)
    with Inl after that show ?thesis by (simp add: after_input_def)
  next
    case (Inr v)
    with after that show ?thesis by (auto simp: after_input_def split: sum.splits prod.splits)
  qed
  show thesis
    by (rule that[OF net, of es k]) (use es s' w inv panics chans in \<open>auto simp: sim_inv_def\<close>)
qed

lemma sim_move_inv: "sim_move oc E lib s s' \<Longrightarrow> sim_inv sz s \<Longrightarrow> sim_inv sz s'"
proof (induction rule: sim_move.induct)
  case (step s s')
  from step.prems step.hyps show ?case by (rule sim_step_Ran)
next
  case (env s w)
  then show ?case by (simp add: sim_inv_def world_ok_env_move)
qed

lemma Simulator_new_size:
  "Simulator_new E rng lib sz dtx = Inr s \<Longrightarrow> 4 \<le> sz \<and> sz < 25"
  by (auto simp: Simulator_new_def split: if_splits)

lemma reachable_inv:
  assumes "lib_keeps_params lib" and "sim_reachable oc E rng lib sz s"
  shows "sim_inv sz s"
  using assms(2)
proof (induction rule: sim_reachable.induct)
  case (start dtx s0 s)
  from start(1) have "4 \<le> sz \<and> sz < 25" by (rule Simulator_new_size)
  then obtain s1 where s1: "Simulator_new E rng lib sz dtx = Inr s1"
      "initialize_system lib s1 = (Inr (), started_system E rng lib sz dtx)"
    using new_then_initialize[OF assms(1)] by metis
  with start have "s = started_system E rng lib sz dtx" by simp
  then show ?case by (simp add: started_inv)
next
  case (move s s')
  then show ?case by (blast intro: sim_move_inv)
qed

text \<open>First in, first out: after \<open>k\<close> steps the oldest \<open>k\<close> envelopes have been handled.\<close>

lemma env_move_network: "env_move w w' \<Longrightarrow> network w' = network w"
  by (induction rule: env_move.induct) auto

lemma sim_trace_fifo:
  assumes "sim_trace oc E lib k s s'" and "sim_inv sz s" and "k \<le> length (items (network (world s)))"
  shows "sim_inv sz s' \<and>
    (\<exists>es. items (network (world s')) = drop k (items (network (world s))) @ es)"
  using assms
proof (induction rule: sim_trace.induct)
  case (none s)
  then show ?case by simp
next
  case (step k s s' s'')
  then obtain es where inv: "sim_inv sz s'"
    and es: "items (network (world s')) = drop k (items (network (world s))) @ es" by auto
  obtain e rest es' where *: "items (network (world s')) = e # rest"
      "items (network (world s'')) = rest @ es'" "sim_inv sz s''"
    using inv step.hyps(2) by (rule sim_step_Ran)
  have "drop k (items (network (world s))) \<noteq> []" using step.prems(2) by simp
  with es * have "rest = drop (Suc k) (items (network (world s))) @ es"
    by (metis append_eq_Cons_conv drop_Suc list.sel(3) tl_append2 tl_drop)
  with * show ?case by auto
next
  case (env k s s' w)
  then show ?case by (auto simp: sim_inv_def world_ok_env_move env_move_network)
qed

section \<open>Properties of the simulator\<close>

abbreviation toy_ctx :: BaseContext where
  "toy_ctx \<equiv> BaseContext_new toy_ed25519 []"

lemma toy_lib_keeps: "lib_keeps_params (toy_lib ctx)"
  by (simp add: lib_keeps_params_def toy_lib_def)

definition toy_system :: "(nat, Params) sim_sys" where
  "toy_system = started_system toy_ed25519 [] (toy_lib toy_ctx) 4 new_channel"

lemma toy_system_reachable: "sim_reachable True toy_ed25519 [] (toy_lib toy_ctx) 4 toy_system"
proof -
  obtain s0 :: "(nat, Params) sim_sys" where "Simulator_new toy_ed25519 [] (toy_lib toy_ctx) 4 new_channel = Inr s0"
    "initialize_system (toy_lib toy_ctx) s0 = (Inr (), toy_system)"
    using new_then_initialize[OF toy_lib_keeps, of 4 toy_ed25519 "[]" toy_ctx new_channel] unfolding toy_system_def by auto
  then show ?thesis by (rule sim_reachable.start)
qed

lemma toy_system_network:
  "map (addr_u32 \<circ> destination) (items (network (world toy_system))) = [0, 1, 2, 3]"
  by (simp add: toy_system_def started_system_def Let_def start_envelope_def upt_rec)

text \<open>a network of between 4 and 24 peers starts: every peer has a consensus state, parameters with
  its own address, metrics and an application, and exactly one message waits per peer, in the order of the
  peers: its own order to start height 0 with the full validator set.\<close>

theorem simulator_starts:
  assumes "lib_keeps_params lib" and "4 \<le> sz" and "sz < 25"
  shows "\<exists>s0 s vs. Simulator_new E rng lib sz dtx = Inr s0 \<and> initialize_system lib s0 = (Inr (), s) \<and>
    vs = BasePeerSet_new sz (shared_public_key E (BaseContext_new E rng)) \<and> length (states s) = unat sz \<and>
    (\<forall>a. if in_system sz a
         then sim_apps (sim s) a = Some \<lparr>peer_id = a\<rparr> \<and> sim_metrics (sim s) a \<noteq> None \<and>
              (\<exists>p. sim_params (sim s) a = Some p \<and> params_address p = a \<and> initial_validator_set p = vs)
         else sim_apps (sim s) a = None) \<and>
    items (network (world s)) =
      map (\<lambda>i. \<lparr>source = BasePeerAddress (of_nat i), destination = BasePeerAddress (of_nat i),
                payload = StartHeight (BaseHeight 0) vs\<rparr>) [0..<unat sz]"
proof -
  let ?s = "started_system E rng lib sz dtx"
  obtain s0 where "Simulator_new E rng lib sz dtx = Inr s0" "initialize_system lib s0 = (Inr (), ?s)"
    using new_then_initialize[OF assms] by blast
  then show ?thesis
    by (intro exI[of _ s0] exI[of _ ?s] exI[of _ "BasePeerSet_new sz (shared_public_key E (BaseContext_new E rng))"])
      (simp add: started_system_def Let_def new_params_def start_envelope_def)
qed

theorem simulator_starts_witness:
  "\<exists>s0 s. Simulator_new toy_ed25519 [] (toy_lib toy_ctx) 4 (new_channel :: nat DecisionStep channel) = Inr s0 \<and>
     initialize_system (toy_lib toy_ctx) s0 = (Inr (), s) \<and> length (states s) = 4"
  using simulator_starts[OF toy_lib_keeps, of 4 toy_ed25519 "[]" toy_ctx "new_channel :: nat DecisionStep channel"]
  by fastforce

text \<open>A network of any other size is refused by an assertion.\<close>

theorem simulator_size_checked:
  "Simulator_new E rng lib sz dtx = Inl AssertFailed \<longleftrightarrow> sz < 4 \<or> 25 \<le> sz"
  by (auto simp: Simulator_new_def Let_def split: prod.splits)

text \<open>C8: in every reachable state, with the block builder and the consumer running in parallel or gone,
  handling the next envelope never fails to find the state, the parameters, the metrics or the application
  of its destination, and never trips the address assertion: a step can only panic because the library
  returned an error or with one of the handlers' own panics, and the state it leaves is well-formed.\<close>

theorem reachable_lookups_succeed:
  assumes "lib_keeps_params lib" and "sim_reachable oc E rng lib sz s"
    and "sim_step oc E lib s = Some (Ran r s')"
  shows "sim_inv sz s' \<and>
    (\<forall>p. r = Inl p \<longrightarrow> p \<in> handler_panics \<union> {Expect ''unknown error during process_peer''}) \<and>
    r \<noteq> Inl UnwrapNone \<and> r \<noteq> Inl AssertFailed"
proof -
  have inv: "sim_inv sz s" using assms(1,2) by (rule reachable_inv)
  have "sim_inv sz s'" by (rule sim_step_Ran[OF inv assms(3)])
  moreover have "p \<in> handler_panics \<union> {Expect ''unknown error during process_peer''}" if "r = Inl p" for p
    by (rule sim_step_Ran[OF inv assms(3)]) (use that in blast)
  moreover have "UnwrapNone \<notin> handler_panics \<union> {Expect ''unknown error during process_peer''}"
    "AssertFailed \<notin> handler_panics \<union> {Expect ''unknown error during process_peer''}"
    by (simp_all add: handler_panics_def)
  ultimately show ?thesis by blast
qed

lemma after_input_Ran: "\<exists>r s'. after_input i s rw = Ran r s'"
  by (cases rw; cases "fst rw") (auto simp: after_input_def split: sum.splits)

lemma sim_step_returns:
  assumes inv: "sim_inv sz s" and net: "items (network (world s)) = e # rest"
    and lib: "\<And>i st. completes (process_input lib i st)"
  shows "\<exists>r s'. sim_step oc E lib s = Some (Ran r s')"
proof -
  let ?i = "unat (addr_u32 (destination e))"
  obtain p where step: "sim_step oc E lib s =
       map_option (after_input ?i s)
         (apply_input oc E lib \<lparr>peer_id = destination e\<rparr> (payload e) p (states s ! ?i) (state_ctx lib (states s ! ?i))
            ((world s)\<lparr>network := (network (world s))\<lparr>items := rest\<rparr>\<rparr>))"
    using inv net by (rule sim_step_inv_cases)
  obtain rw where "apply_input oc E lib \<lparr>peer_id = destination e\<rparr> (payload e) p (states s ! ?i) (state_ctx lib (states s ! ?i))
            ((world s)\<lparr>network := (network (world s))\<lparr>items := rest\<rparr>\<rparr>) = Some rw"
    using drive_returns[OF lib] unfolding apply_input_def by blast
  then show ?thesis using step after_input_Ran[of ?i s rw] by simp
qed

lemma toy_step_runs: "\<exists>r s'. sim_step True toy_ed25519 (toy_lib toy_ctx) toy_system = Some (Ran r s')"
proof -
  obtain e rest where "items (network (world toy_system)) = e # rest"
    using toy_system_network by (cases "items (network (world toy_system))") auto
  then show ?thesis
    using sim_step_returns[OF started_inv] toy_lib_completes unfolding toy_system_def by blast
qed

theorem reachable_lookups_succeed_witness:
  "\<exists>r s'. sim_step True toy_ed25519 (toy_lib toy_ctx) toy_system = Some (Ran r s') \<and> r \<noteq> Inl UnwrapNone"
proof -
  obtain r s' where run: "sim_step True toy_ed25519 (toy_lib toy_ctx) toy_system = Some (Ran r s')"
    using toy_step_runs by blast
  with reachable_lookups_succeed[OF toy_lib_keeps toy_system_reachable run] show ?thesis by blast
qed



text \<open>C23: the network is first in, first out: if \<open>k\<close> messages or more are waiting in a reachable state,
  then after \<open>k\<close> successful steps, with any activity of the other threads in between, exactly the oldest
  \<open>k\<close> of them have been handled and the others are still waiting in their order, ahead of everything that
  was sent meanwhile.\<close>

theorem network_is_fifo:
  assumes "lib_keeps_params lib" and "sim_reachable oc E rng lib sz s" and "sim_trace oc E lib k s s'"
    and "k \<le> length (items (network (world s)))"
  shows "\<exists>es. items (network (world s')) = drop k (items (network (world s))) @ es"
  using sim_trace_fifo[OF assms(3) reachable_inv[OF assms(1,2)] assms(4)] by blast

lemma toy_trace: "\<exists>s'. sim_trace True toy_ed25519 (toy_lib toy_ctx) 1 toy_system s'"
proof -
  let ?v = "\<lparr>value_id_u64 = 0, transactions = [7]\<rparr> :: nat BaseValue"
  let ?w = "(world toy_system)\<lparr>proposals := new_channel\<lparr>items := [?v]\<rparr>\<rparr>"
  let ?s = "toy_system\<lparr>world := ?w\<rparr>"
  have net: "items (network (world ?s)) = start_envelope (BasePeerSet_new 4 (shared_public_key toy_ed25519 toy_ctx)) (BasePeerAddress 0)
      # map (start_envelope (BasePeerSet_new 4 (shared_public_key toy_ed25519 toy_ctx))) [BasePeerAddress 1, BasePeerAddress 2, BasePeerAddress 3]"
    (is "_ = ?e # ?rest")
    by (simp add: toy_system_def started_system_def Let_def upt_rec)
  have move: "env_move (world toy_system) ?w"
    by (rule env_move.offer[of ?v])
      (simp add: toy_system_def started_system_def Let_def chan_send_bounded_def new_channel_def)
  have "sim_inv 4 toy_system" unfolding toy_system_def by (rule started_inv)
  then have inv: "sim_inv 4 ?s" using world_ok_env_move[OF move] by (simp add: sim_inv_def)
  obtain p where p: "params_address p = destination ?e"
    and step: "sim_step True toy_ed25519 (toy_lib toy_ctx) ?s =
       map_option (after_input (unat (addr_u32 (destination ?e))) ?s)
         (apply_input True toy_ed25519 (toy_lib toy_ctx) \<lparr>peer_id = destination ?e\<rparr> (payload ?e) p
            (states ?s ! unat (addr_u32 (destination ?e)))
            (state_ctx (toy_lib toy_ctx :: (nat, Params) consensus_lib) (states ?s ! unat (addr_u32 (destination ?e))))
            ((world ?s)\<lparr>network := (network (world ?s))\<lparr>items := ?rest\<rparr>\<rparr>))"
    using inv net by (rule sim_step_inv_cases)
  have alive: "rx_alive (network (world toy_system))"
    using inv by (simp add: sim_inv_def world_ok_def)
  obtain s' where run: "sim_step True toy_ed25519 (toy_lib toy_ctx) ?s = Some (Ran (Inr ()) s')"
    unfolding step
    by (simp add: apply_input_def toy_lib_def start_envelope_def drive_Yield handle_effect_def handle_get_value_def
        act_simps p[unfolded start_envelope_def] alive after_input_def new_channel_def push_network_def)
  have "sim_trace True toy_ed25519 (toy_lib toy_ctx) (Suc 0) toy_system s'"
    by (rule sim_trace.step[OF sim_trace.env[OF sim_trace.none move] run])
  then show ?thesis unfolding One_nat_def by blast
qed

theorem network_is_fifo_witness:
  "\<exists>s' es. sim_trace True toy_ed25519 (toy_lib toy_ctx) 1 toy_system s' \<and>
     items (network (world s')) = drop 1 (items (network (world toy_system))) @ es"
proof -
  obtain s' where run: "sim_trace True toy_ed25519 (toy_lib toy_ctx) 1 toy_system s'" using toy_trace by blast
  have "1 \<le> length (items (network (world toy_system)))"
    using arg_cong[OF toy_system_network, of length] by simp
  with run network_is_fifo[OF toy_lib_keeps toy_system_reachable run] show ?thesis by blast
qed

end
