(* ===== verification/Chain_Consumer.thy ===== *)
theory Chain_Consumer
  imports Application
begin

text \<open>
  The two ends of the chain in \<open>chain.rs\<close>: the block builder, which numbers the values to be
  proposed (the task spawned in \<open>MalachiteChain::poll\<close>), and \<open>MalachiteChainConsumer\<close>, which reads
  the decision steps and relays the transactions of each decided height to the execution task.

  The consumer's specification is \<open>relayed\<close>, a function of the whole stream of decision steps: for
  every final step of peer 0, the transactions of the first value proposed at that height.
\<close>

section \<open>MalachiteChainConsumer\<close>

record 'tx consumer =
  decisions :: "BaseHeight \<rightharpoonup> 'tx BaseValue"
  to_task :: "'tx list channel"

definition consumer_new :: "'tx list channel \<Rightarrow> 'tx consumer" where
  "consumer_new chain_tx = \<lparr>decisions = Map.empty, to_task = chain_tx\<rparr>"

text \<open>The body of the loop for one decision step.\<close>

definition consumer_handle :: "'tx DecisionStep \<Rightarrow> ('tx consumer, unit) act" where
  "consumer_handle d c =
     (case d of
        Proposed p \<Rightarrow>
          (if decisions c (pv_height p) = None
           then (Inr (), c\<lparr>decisions := (decisions c)(pv_height p \<mapsto> pv_value p)\<rparr>)
           else (Inr (), c))
      | Finalized f \<Rightarrow>
          (if dec_peer f = BasePeerAddress 0
           then (case decisions c (dec_height f) of
                   None \<Rightarrow> (Inl UnwrapNone, c)
                 | Some val \<Rightarrow>
                     (case chan_send (transactions val) (to_task c) of
                        Inl _ \<Rightarrow> (Inl (Expect ''unable to relay the newly produced block''), c)
                      | Inr ch \<Rightarrow> (Inr (), c\<lparr>to_task := ch\<rparr>)))
           else (Inr (), c)))"

text \<open>
  The loop of \<open>run\<close> up to the next wait: it waits on an empty stream, stops when the stream is
  closed, and ends with a panic of its body.
\<close>

datatype consumer_result = Awaiting | Stopped | Panicked panic

function consumer_run ::
  "'tx DecisionStep channel \<Rightarrow> 'tx consumer \<Rightarrow> consumer_result \<times> 'tx DecisionStep channel \<times> 'tx consumer" where
  "consumer_run from_chain c =
     (case chan_recv from_chain of
        (Item d, ch) \<Rightarrow>
          (case consumer_handle d c of
             (Inl p, c') \<Rightarrow> (Panicked p, ch, c')
           | (Inr _, c') \<Rightarrow> consumer_run ch c')
      | (Empty, ch) \<Rightarrow> (Awaiting, ch, c)
      | (Disconnected, ch) \<Rightarrow> (Stopped, ch, c))"
  by pat_completeness auto
termination
  by (relation "measure (\<lambda>(ch, c). length (items ch))")
    (auto simp: chan_recv_def split: list.splits if_splits)

declare consumer_run.simps [simp del]

section \<open>The block builder\<close>

text \<open>
  The builder holds the next identifier and, between fetching the pool's best transactions and
  the channel accepting the value, the value itself (\<open>send\<close> waits while the channel is full).
\<close>

record 'tx builder =
  value_counter :: u64
  in_hand :: "'tx BaseValue option"

definition builder_new :: "'tx builder" where
  "builder_new = \<lparr>value_counter = 0, in_hand = None\<rparr>"

definition builder_collect :: "'tx list \<Rightarrow> 'tx builder \<Rightarrow> 'tx builder" where
  "builder_collect txs b =
     (case in_hand b of
        None \<Rightarrow> b\<lparr>in_hand := Some \<lparr>value_id_u64 = value_counter b, transactions = txs\<rparr>\<rparr>
      | Some _ \<Rightarrow> b)"

definition builder_send ::
  "bool \<Rightarrow> 'tx builder \<Rightarrow> 'tx BaseValue channel \<Rightarrow> (panic + 'tx builder) \<times> 'tx BaseValue channel" where
  "builder_send oc b ch =
     (case in_hand b of
        None \<Rightarrow> (Inr b, ch)
      | Some val \<Rightarrow>
          (case chan_send_bounded 1 val ch of
             BDisconnected \<Rightarrow> (Inl (Expect ''could not send new value to be proposed''), ch)
           | BFull \<Rightarrow> (Inr b, ch)
           | BSent ch' \<Rightarrow>
               (case checked_plus oc (value_counter b) 1 of
                  Inl p \<Rightarrow> (Inl p, ch')
                | Inr n \<Rightarrow> (Inr (b\<lparr>value_counter := n, in_hand := None\<rparr>), ch'))))"

section \<open>Specification of the consumer\<close>

definition proposed_at :: "BaseHeight \<Rightarrow> 'tx DecisionStep \<Rightarrow> bool" where
  "proposed_at h d \<longleftrightarrow> (case d of Proposed p \<Rightarrow> pv_height p = h | Finalized _ \<Rightarrow> False)"

definition step_value :: "'tx DecisionStep \<Rightarrow> 'tx BaseValue option" where
  "step_value d = (case d of Proposed p \<Rightarrow> Some (pv_value p) | Finalized _ \<Rightarrow> None)"

text \<open>The first value proposed at a height.\<close>

definition first_proposed :: "'tx DecisionStep list \<Rightarrow> BaseHeight \<Rightarrow> 'tx BaseValue option" where
  "first_proposed ds h = Option.bind (find (proposed_at h) ds) step_value"

definition peer0_final :: "'tx DecisionStep \<Rightarrow> bool" where
  "peer0_final d \<longleftrightarrow> (\<exists>f. d = Finalized f \<and> dec_peer f = BasePeerAddress 0)"

definition step_height :: "'tx DecisionStep \<Rightarrow> BaseHeight" where
  "step_height d = (case d of Proposed p \<Rightarrow> pv_height p | Finalized f \<Rightarrow> dec_height f)"

text \<open>Every final step of peer 0 comes after a proposal at its height.\<close>

definition announced :: "'tx DecisionStep list \<Rightarrow> bool" where
  "announced ds \<longleftrightarrow>
     (\<forall>k<length ds. peer0_final (ds ! k) \<longrightarrow> first_proposed (take k ds) (step_height (ds ! k)) \<noteq> None)"

definition relayed :: "'tx DecisionStep list \<Rightarrow> 'tx list list" where
  "relayed ds =
     map (\<lambda>k. transactions (the (first_proposed (take k ds) (step_height (ds ! k)))))
       (filter (\<lambda>k. peer0_final (ds ! k)) [0..<length ds])"

section \<open>The consumer implements the specification\<close>

lemma consumer_run_Item:
  "items ch = d # ds \<Longrightarrow> consumer_run ch c =
     (case consumer_handle d c of
        (Inl p, c') \<Rightarrow> (Panicked p, ch\<lparr>items := ds\<rparr>, c')
      | (Inr _, c') \<Rightarrow> consumer_run (ch\<lparr>items := ds\<rparr>) c')"
  by (subst consumer_run.simps) simp

lemma consumer_run_Nil:
  "items ch = [] \<Longrightarrow> consumer_run ch c = (if tx_alive ch then Awaiting else Stopped, ch, c)"
  by (subst consumer_run.simps) (simp add: chan_recv_def)

lemma consumer_handle_Proposed:
  "consumer_handle (Proposed p) c =
     (Inr (), if decisions c (pv_height p) = None
              then c\<lparr>decisions := (decisions c)(pv_height p \<mapsto> pv_value p)\<rparr> else c)"
  by (simp add: consumer_handle_def)

lemma consumer_handle_unannounced:
  "dec_peer f = BasePeerAddress 0 \<Longrightarrow> decisions c (dec_height f) = None \<Longrightarrow>
     consumer_handle (Finalized f) c = (Inl UnwrapNone, c)"
  by (simp add: consumer_handle_def)

text \<open>The loop is the body run over the queued steps.\<close>

lemma consumer_run_foreach:
  assumes "foreach (items ch) consumer_handle c = (r, c')"
  shows "\<exists>ch'. consumer_run ch c =
    (case r of Inl p \<Rightarrow> Panicked p | Inr _ \<Rightarrow> if tx_alive ch then Awaiting else Stopped, ch', c')"
  using assms
proof (induction "items ch" arbitrary: ch c)
  case Nil
  then show ?case by (auto simp: consumer_run_Nil act_simps)
next
  case (Cons d ds)
  obtain r1 c1 where one: "consumer_handle d c = (r1, c1)" by fastforce
  show ?case
  proof (cases r1)
    case (Inl p)
    with one Cons show ?thesis
      by (auto simp: consumer_run_Item[OF Cons.hyps(2)[symmetric]] act_simps simp flip: Cons.hyps(2))
  next
    case (Inr u)
    have "foreach (items (ch\<lparr>items := ds\<rparr>)) consumer_handle c1 = (r, c')"
      using one Inr Cons.prems by (simp add: act_simps flip: Cons.hyps(2))
    with Cons.hyps(1)[of "ch\<lparr>items := ds\<rparr>" c1] one Inr show ?thesis
      by (cases r; cases "tx_alive ch")
        (auto simp: consumer_run_Item[OF Cons.hyps(2)[symmetric]])
  qed
qed

lemma first_proposed_snoc:
  "first_proposed (ds @ [d]) h =
     (case first_proposed ds h of
        Some v \<Rightarrow> Some v | None \<Rightarrow> if proposed_at h d then step_value d else None)"
proof (cases "find (proposed_at h) ds")
  case None
  then have "find (proposed_at h) (ds @ [d]) = (if proposed_at h d then Some d else None)"
    by (induction ds) (auto split: if_splits)
  with None show ?thesis by (simp add: first_proposed_def)
next
  case (Some e)
  then have "find (proposed_at h) (ds @ [d]) = Some e"
    by (induction ds) (auto split: if_splits)
  moreover have "proposed_at h e" using Some by (auto simp: find_Some_iff)
  then have "step_value e \<noteq> None" by (auto simp: proposed_at_def step_value_def split: DecisionStep.splits)
  ultimately show ?thesis using Some by (auto simp: first_proposed_def)
qed

lemma relayed_snoc:
  "relayed (ds @ [d]) = relayed ds @
     (if peer0_final d then [transactions (the (first_proposed ds (step_height d)))] else [])"
proof -
  have "map (\<lambda>k. transactions (the (first_proposed (take k (ds @ [d])) (step_height ((ds @ [d]) ! k)))))
          (filter (\<lambda>k. peer0_final ((ds @ [d]) ! k)) [0..<length ds]) = relayed ds"
    unfolding relayed_def by (intro map_cong filter_cong) (auto simp: nth_append)
  then show ?thesis by (simp add: relayed_def)
qed

lemma announced_snoc:
  "announced (ds @ [d]) \<longleftrightarrow>
     announced ds \<and> (peer0_final d \<longrightarrow> first_proposed ds (step_height d) \<noteq> None)"
  by (auto simp: announced_def nth_append less_Suc_eq)

lemma relayed_append: "\<exists>xs. relayed (ds @ ds2) = relayed ds @ xs"
proof (induction ds2 rule: rev_induct)
  case Nil
  show ?case by simp
next
  case (snoc d ds2)
  then show ?case by (metis append_assoc relayed_snoc)
qed

lemma announced_append: "announced (ds @ ds2) \<Longrightarrow> announced ds"
proof (induction ds2 rule: rev_induct)
  case (snoc d ds2)
  then show ?case by (metis append_assoc announced_snoc)
qed simp

text \<open>
  One step: from the state after \<open>ds\<close> to the state after \<open>ds @ [d]\<close>, or a panic when \<open>d\<close> decides a
  height that \<open>ds\<close> has no proposal for.
\<close>

definition relay_of :: "'tx DecisionStep list \<Rightarrow> 'tx DecisionStep \<Rightarrow> 'tx list list" where
  "relay_of ds d = (if peer0_final d then [transactions (the (first_proposed ds (step_height d)))] else [])"

lemma consumer_step:
  assumes "rx_alive tt"
  shows "consumer_handle d \<lparr>decisions = first_proposed ds, to_task = tt\<rparr> =
    (if peer0_final d \<longrightarrow> first_proposed ds (step_height d) \<noteq> None
     then (Inr (), \<lparr>decisions = first_proposed (ds @ [d]), to_task = tt\<lparr>items := items tt @ relay_of ds d\<rparr>\<rparr>)
     else (Inl UnwrapNone, \<lparr>decisions = first_proposed ds, to_task = tt\<rparr>))"
proof (cases d)
  case (Proposed p)
  then show ?thesis
    by (auto simp: consumer_handle_def first_proposed_snoc relay_of_def peer0_final_def
        proposed_at_def step_value_def fun_eq_iff split: option.splits)
next
  case (Finalized f)
  with assms show ?thesis
    by (auto simp: consumer_handle_def first_proposed_snoc relay_of_def peer0_final_def
        proposed_at_def step_height_def fun_eq_iff split: option.splits)
qed

lemma consumer_refines:
  assumes "rx_alive tt"
  shows "announced ds \<longrightarrow>
      foreach ds consumer_handle \<lparr>decisions = Map.empty, to_task = tt\<rparr> =
        (Inr (), \<lparr>decisions = first_proposed ds, to_task = tt\<lparr>items := items tt @ relayed ds\<rparr>\<rparr>)"
proof (induction ds rule: rev_induct)
  case Nil
  show ?case by (simp add: act_simps first_proposed_def relayed_def fun_eq_iff)
next
  case (snoc d ds)
  then show ?case
    using assms
    by (auto simp: announced_snoc foreach_append act_simps consumer_step relayed_snoc relay_of_def)
qed

text \<open>A final step of peer 0 without an earlier proposal at its height ends the consumer.\<close>

lemma consumer_unannounced:
  assumes "rx_alive tt"
  shows "\<not> announced ds \<longrightarrow>
    fst (foreach ds consumer_handle \<lparr>decisions = Map.empty, to_task = tt\<rparr>) = Inl UnwrapNone"
proof (induction ds rule: rev_induct)
  case Nil
  show ?case by (simp add: announced_def)
next
  case (snoc d ds)
  show ?case
  proof (cases "announced ds")
    case True
    with consumer_refines[OF assms] assms show ?thesis
      by (auto simp: announced_snoc foreach_append act_simps consumer_step)
  next
    case False
    with snoc show ?thesis by (auto simp: foreach_append split: prod.splits)
  qed
qed

text \<open>Announcing the same proposal again changes nothing.\<close>

lemma consumer_proposed_twice:
  "consumer_handle (Proposed p) c = (Inr (), c') \<Longrightarrow> consumer_handle (Proposed p) c' = (Inr (), c')"
  by (auto simp: consumer_handle_Proposed split: if_splits)

lemma consumer_proposed_repeat:
  "foreach (replicate (Suc n) (Proposed p)) consumer_handle c = consumer_handle (Proposed p) c"
proof -
  obtain c' where one: "consumer_handle (Proposed p) c = (Inr (), c')"
    by (simp add: consumer_handle_Proposed)
  then have "foreach (replicate n (Proposed p)) consumer_handle c' = (Inr (), c')"
    by (induction n) (auto simp: act_simps consumer_proposed_twice)
  with one show ?thesis by (simp add: act_simps)
qed

section \<open>The block builder numbers the values in order\<close>

text \<open>
  \<open>builder_ok n b ch\<close>: \<open>n\<close> values have been accepted so far, and the one in hand carries the next
  number.
\<close>

definition builder_ok :: "nat \<Rightarrow> 'tx builder \<Rightarrow> bool" where
  "builder_ok n b \<longleftrightarrow>
     value_counter b = of_nat n \<and>
     (\<forall>v. in_hand b = Some v \<longrightarrow> value_id_u64 v = of_nat n)"

text \<open>One round of the builder's loop against a channel that other threads drain between rounds.\<close>

inductive builder_trace :: "bool \<Rightarrow> 'tx BaseValue list \<Rightarrow> 'tx builder \<Rightarrow> bool" for oc where
  start: "builder_trace oc [] builder_new"
| collect: "builder_trace oc sent b \<Longrightarrow> builder_trace oc sent (builder_collect txs b)"
| send: "builder_trace oc sent b \<Longrightarrow> builder_send oc b ch = (Inr b', ch') \<Longrightarrow>
    builder_trace oc (sent @ drop (length (items ch)) (items ch')) b'"

lemma builder_collect_ok: "builder_ok n b \<Longrightarrow> builder_ok n (builder_collect txs b)"
  by (auto simp: builder_ok_def builder_collect_def split: option.splits)

lemma builder_send_ok:
  assumes "builder_ok n b" and "builder_send oc b ch = (Inr b', ch')"
  shows "(ch' = ch \<and> b' = b) \<or>
    (\<exists>v. in_hand b = Some v \<and> value_id_u64 v = of_nat n \<and> items ch' = items ch @ [v] \<and> builder_ok (Suc n) b')"
  using assms
  by (auto simp: builder_ok_def builder_send_def chan_send_bounded_def add.commute
      split: option.splits bounded_send.splits sum.splits if_splits dest!: checked_plus_Inr)

lemma builder_trace_ids:
  "builder_trace oc sent b \<Longrightarrow>
     builder_ok (length sent) b \<and> map value_id_u64 sent = map of_nat [0..<length sent]"
proof (induction rule: builder_trace.induct)
  case start
  show ?case by (simp add: builder_ok_def builder_new_def)
next
  case (collect sent b txs)
  then show ?case by (simp add: builder_collect_ok)
next
  case (send sent b ch b' ch')
  then have ok: "builder_ok (length sent) b" by simp
  from builder_send_ok[OF ok send.hyps(2)] send.IH show ?case by auto
qed

section \<open>Properties of the consumer and the builder\<close>

definition toy_value :: "u64 \<Rightarrow> 'tx list \<Rightarrow> 'tx BaseValue" where
  "toy_value i txs = \<lparr>value_id_u64 = i, transactions = txs\<rparr>"

definition toy_proposed :: "u64 \<Rightarrow> 'tx BaseValue \<Rightarrow> 'tx DecisionStep" where
  "toy_proposed h v = Proposed \<lparr>pv_height = BaseHeight h, pv_round = RoundNil, pv_valid_round = RoundNil,
     pv_proposer = BasePeerAddress 0, pv_value = v, pv_validity = Valid, pv_extension = None\<rparr>"

definition toy_final :: "u32 \<Rightarrow> u64 \<Rightarrow> 'tx DecisionStep" where
  "toy_final p h = Finalized \<lparr>dec_peer = BasePeerAddress p, dec_value_id = BaseValueId 0, dec_height = BaseHeight h\<rparr>"

lemmas toy_step_defs = toy_value_def toy_proposed_def toy_final_def

text \<open>C6: the consumer implements its specification: over any stream of decision steps in which every
  decision of peer 0 was preceded by a proposal at its height, it relays, once per decision of peer 0 and
  in the order of the decisions, the transactions of the first value proposed at the decided height; it
  then waits for more steps, or stops when the chain is gone.\<close>

theorem consumer_relays_decided:
  assumes "rx_alive tt" and "announced (items ch)"
  shows "\<exists>ch'. consumer_run ch (consumer_new tt) =
    (if tx_alive ch then Awaiting else Stopped, ch',
     \<lparr>decisions = first_proposed (items ch), to_task = tt\<lparr>items := items tt @ relayed (items ch)\<rparr>\<rparr>)"
proof -
  have "foreach (items ch) consumer_handle (consumer_new tt) =
      (Inr (), \<lparr>decisions = first_proposed (items ch), to_task = tt\<lparr>items := items tt @ relayed (items ch)\<rparr>\<rparr>)"
    using consumer_refines[OF assms(1)] assms(2) by (simp add: consumer_new_def)
  from consumer_run_foreach[OF this] show ?thesis by simp
qed

theorem consumer_relays_decided_witness:
  "\<exists>ch' c. consumer_run (new_channel\<lparr>items := [toy_proposed 0 (toy_value 0 [7 :: nat]), toy_final 2 0,
       toy_proposed 0 (toy_value 1 [8]), toy_final 0 0]\<rparr>) (consumer_new new_channel) = (Awaiting, ch', c) \<and>
     items (to_task c) = [[7]]"
proof -
  let ?ds = "[toy_proposed 0 (toy_value 0 [7 :: nat]), toy_final 2 0, toy_proposed 0 (toy_value 1 [8]), toy_final 0 0]"
  have "announced ?ds" "relayed ?ds = [[7]]"
    by (auto simp: announced_def relayed_def peer0_final_def toy_step_defs first_proposed_def proposed_at_def
        step_value_def step_height_def less_Suc_eq upt_rec)
  then show ?thesis
    using consumer_relays_decided[of new_channel "new_channel\<lparr>items := ?ds\<rparr>"] by (auto simp: new_channel_def)
qed

text \<open>C34: a decision of peer 0 at a height without an earlier proposal makes the consumer panic, because it
  unwraps the lookup; this is the only way in which it fails while the task's channel is open.\<close>

theorem consumer_fails_iff_unannounced:
  assumes "rx_alive tt"
  shows "(\<exists>p. fst (consumer_run ch (consumer_new tt)) = Panicked p) \<longleftrightarrow> \<not> announced (items ch)"
proof (cases "announced (items ch)")
  case True
  then have "fst (foreach (items ch) consumer_handle (consumer_new tt)) = Inr ()"
    using consumer_refines[OF assms] by (simp add: consumer_new_def)
  then obtain c where "foreach (items ch) consumer_handle (consumer_new tt) = (Inr (), c)" by (metis prod.collapse)
  from consumer_run_foreach[OF this] True show ?thesis by (auto split: if_splits)
next
  case False
  then have "fst (foreach (items ch) consumer_handle (consumer_new tt)) = Inl UnwrapNone"
    using consumer_unannounced[OF assms] by (simp add: consumer_new_def)
  then obtain c where "foreach (items ch) consumer_handle (consumer_new tt) = (Inl UnwrapNone, c)" by (metis prod.collapse)
  from consumer_run_foreach[OF this] False show ?thesis by auto
qed

theorem consumer_fails_iff_unannounced_witness:
  "\<exists>p. fst (consumer_run (new_channel\<lparr>items := [toy_final 0 3]\<rparr>) (consumer_new (new_channel :: nat list channel)))
     = Panicked p"
proof -
  have "\<not> announced [toy_final 0 3 :: nat DecisionStep]"
    by (simp add: announced_def peer0_final_def toy_step_defs first_proposed_def)
  then show ?thesis
    using consumer_fails_iff_unannounced[of new_channel "new_channel\<lparr>items := [toy_final 0 3 :: nat DecisionStep]\<rparr>"]
    by (simp add: new_channel_def)
qed

text \<open>A proposal is announced once per peer by the peer that publishes it; however often the same
  announcement arrives, the consumer is left as after the first.\<close>

theorem repeated_announcement_is_one:
  "foreach (replicate (Suc n) (Proposed p)) consumer_handle c =
     (Inr (), c\<lparr>decisions := (case decisions c (pv_height p) of
        None \<Rightarrow> (decisions c)(pv_height p \<mapsto> pv_value p) | Some v \<Rightarrow> decisions c)\<rparr>)"
  unfolding consumer_proposed_repeat by (simp add: consumer_handle_Proposed split: option.splits)

text \<open>the block builder gives the values that the chain accepts the identifiers 0, 1, 2, ... in the
  order of acceptance, whatever the timing of the pool and of the channel; within the range of the counter
  no two accepted values have the same identifier.\<close>

theorem builder_numbers_values:
  assumes "builder_trace oc sent b" and "length sent \<le> 2 ^ 64"
  shows "map value_id_u64 sent = map of_nat [0..<length sent] \<and> distinct (map value_id_u64 sent)"
proof -
  have ids: "map value_id_u64 sent = map of_nat [0..<length sent]"
    using builder_trace_ids[OF assms(1)] by simp
  have "inj_on (of_nat :: nat \<Rightarrow> u64) {0..<length sent}"
    using assms(2) by (auto simp: inj_on_def word_unat_eq_iff unsigned_of_nat take_bit_nat_eq_self)
  then show ?thesis unfolding ids by (simp add: distinct_map)
qed

theorem builder_numbers_values_witness:
  "\<exists>sent b. builder_trace True sent b \<and> map transactions sent = [[5 :: nat], [6]] \<and> map value_id_u64 sent = [0, 1]"
proof -
  let ?b1 = "builder_collect [5 :: nat] builder_new"
  let ?b2 = "\<lparr>value_counter = 1, in_hand = None\<rparr> :: nat builder"
  let ?b3 = "builder_collect [6] ?b2"
  have "builder_send True ?b1 new_channel = (Inr ?b2, new_channel\<lparr>items := [toy_value 0 [5]]\<rparr>)"
    by (simp add: builder_send_def builder_collect_def builder_new_def chan_send_bounded_def new_channel_def
        checked_plus_def toy_value_def)
  then have "builder_trace True [toy_value 0 [5]] ?b2"
    using builder_trace.send[OF builder_trace.collect[OF builder_trace.start]] by (fastforce simp: new_channel_def)
  then have t3: "builder_trace True [toy_value 0 [5]] ?b3" by (rule builder_trace.collect)
  have "builder_send True ?b3 new_channel = (Inr \<lparr>value_counter = 2, in_hand = None\<rparr>, new_channel\<lparr>items := [toy_value 1 [6]]\<rparr>)"
    by (simp add: builder_send_def builder_collect_def chan_send_bounded_def new_channel_def checked_plus_def toy_value_def)
  then have t: "builder_trace True [toy_value 0 [5 :: nat], toy_value 1 [6]] \<lparr>value_counter = 2, in_hand = None\<rparr>"
    using builder_trace.send[OF t3] by (fastforce simp: new_channel_def)
  from builder_numbers_values[OF t] have "map value_id_u64 [toy_value 0 [5 :: nat], toy_value 1 [6]] = [0, 1]" by simp
  with t show ?thesis by (intro exI[of _ "[toy_value 0 [5], toy_value 1 [6]]"]) (auto simp: toy_value_def)
qed

end
