(* ===== verification/Chain_Storage.thy ===== *)
theory Chain_Storage
  imports Rem_Prelude "HOL-Library.AList"
begin

text \<open>
  \<open>chain/storage.rs\<close>: the in-memory chain of the execution side.

  The state \<open>StorageInner\<close> keeps the headers by number, the bodies by hash, the numbers by hash and
  the tip. Where the order of a \<open>HashMap\<close> shows (the search in \<open>block_hash\<close>), the map is an
  association list and the order in which Rust iterates over it is the parameter \<open>order\<close>.

  Reth is not part of the repository. The functions of reth that this file calls are the records
  \<open>reth\<close> (hashing, roots, fee rules), \<open>chain_spec\<close> and \<open>executor\<close> (state provider and block
  executor); \<open>'tx\<close> is a signed transaction, \<open>'db\<close> a state database, \<open>'st\<close> the post-state and
  \<open>'r\<close> a receipt. The reader-writer lock around the state is not a part of the state: the
  operations here are what its holder runs.

  The specification is a chain: the sealed header the storage was created with and the blocks
  inserted since, oldest first. \<open>chain_repr\<close> relates the two.
\<close>

unbundle bit_operations_syntax

section \<open>Data\<close>

type_synonym B256 = "256 word"
type_synonym U256 = "256 word"
type_synonym Address = "160 word"
type_synonym Bloom = "2048 word"
type_synonym BlockNumber = u64

text \<open>Withdrawals and requests: the source builds only the empty defaults.\<close>

type_synonym Withdrawals = "bytes list"
type_synonym Requests = "bytes list"

record Header =
  parent_hash :: B256
  ommers_hash :: B256
  beneficiary :: Address
  state_root :: B256
  transactions_root :: B256
  receipts_root :: B256
  withdrawals_root :: "B256 option"
  logs_bloom :: Bloom
  difficulty :: U256
  number :: BlockNumber
  gas_limit :: u64
  gas_used :: u64
  timestamp :: u64
  mix_hash :: B256
  nonce :: u64
  base_fee_per_gas :: "u64 option"
  blob_gas_used :: "u64 option"
  excess_blob_gas :: "u64 option"
  extra_data :: bytes
  parent_beacon_block_root :: "B256 option"
  requests_root :: "B256 option"

record SealedHeader =
  header_of :: Header
  seal_hash :: B256

record 'tx BlockBody =
  body_transactions :: "'tx list"
  body_ommers :: "Header list"
  body_withdrawals :: "Withdrawals option"
  body_requests :: "Requests option"

definition default_body :: "'tx BlockBody" where
  "default_body = \<lparr>body_transactions = [], body_ommers = [], body_withdrawals = None, body_requests = None\<rparr>"

record 'tx Block =
  block_header :: Header
  block_transactions :: "'tx list"
  block_ommers :: "Header list"
  block_withdrawals :: "Withdrawals option"
  block_requests :: "Requests option"

datatype BlockHashOrNumber = Hash B256 | Number BlockNumber

record 'tx StorageInner =
  headers :: "BlockNumber \<rightharpoonup> Header"
  hash_to_number :: "(B256 \<times> BlockNumber) list"
  bodies :: "B256 \<rightharpoonup> 'tx BlockBody"
  best_block :: u64
  best_hash :: B256
  total_difficulty :: U256

section \<open>Reth as a parameter\<close>

type_synonym BaseFeeParams = "u128 \<times> u128"

record ChainSpec =
  max_gas_limit :: u64
  base_fee_params_at_timestamp :: "u64 \<Rightarrow> BaseFeeParams"
  is_shanghai_active_at_timestamp :: "u64 \<Rightarrow> bool"
  is_cancun_active_at_timestamp :: "u64 \<Rightarrow> bool"
  is_prague_active_at_timestamp :: "u64 \<Rightarrow> bool"

record 'tx reth =
  hash_slow :: "Header \<Rightarrow> B256"
  next_block_base_fee :: "Header \<Rightarrow> BaseFeeParams \<Rightarrow> u64 option"
  blob_gas :: "'tx \<Rightarrow> u64 option" \<comment> \<open>\<open>as_eip4844\<close>, then \<open>blob_gas\<close>\<close>
  calculate_ommers_root :: "Header list \<Rightarrow> B256"
  calculate_transaction_root :: "'tx list \<Rightarrow> B256"
  calculate_withdrawals_root :: "Withdrawals \<Rightarrow> B256"
  calculate_requests_root :: "Requests \<Rightarrow> B256"
  calculate_excess_blob_gas :: "u64 \<Rightarrow> u64 \<Rightarrow> u64"
  recover_senders :: "'tx Block \<Rightarrow> Address list option" \<comment> \<open>\<open>with_recovered_senders\<close>\<close>
  u256_add :: "U256 \<Rightarrow> U256 \<Rightarrow> U256"
  tx_hash :: "'tx \<Rightarrow> B256"

datatype provider_error = ProviderError string

datatype BlockExecutionError =
    SenderRecoveryError
  | LatestBlockError provider_error
  | ExecutionFailed string
  | StateRootError provider_error

record ('st, 'r) BlockExecutionOutput =
  out_state :: 'st
  out_receipts :: "'r list"
  out_requests :: Requests
  out_gas_used :: u64

record ('st, 'r) ExecutionOutcome =
  outcome_state :: 'st
  outcome_receipts :: "'r list"
  first_block :: BlockNumber
  outcome_requests :: "Requests list"

record ('tx, 'db, 'st, 'r) executor =
  execute :: "'db \<Rightarrow> 'tx Block \<times> Address list \<Rightarrow> U256 \<Rightarrow> BlockExecutionError + ('st, 'r) BlockExecutionOutput"
  db_state_root :: "'db \<Rightarrow> 'st \<Rightarrow> provider_error + B256"
  receipts_by_block :: "('st, 'r) ExecutionOutcome \<Rightarrow> BlockNumber \<Rightarrow> 'r option list"
  bloom_slow :: "'r \<Rightarrow> Bloom"
  receipts_root_slow :: "('st, 'r) ExecutionOutcome \<Rightarrow> BlockNumber \<Rightarrow> B256 option"

section \<open>Storage::new and the lookups\<close>

definition Storage_new :: "SealedHeader \<Rightarrow> 'tx StorageInner" where
  "Storage_new best =
     (let header = header_of best; hash = seal_hash best in
      \<lparr>headers = [number header \<mapsto> header], hash_to_number = [], bodies = [hash \<mapsto> default_body],
       best_block = number header, best_hash = hash, total_difficulty = difficulty header\<rparr>)"

text \<open>
  \<open>hash_to_number.iter().find_map(...)\<close>: the first entry, in iteration order, with this number.
\<close>

definition block_hash ::
  "((B256 \<times> BlockNumber) list \<Rightarrow> (B256 \<times> BlockNumber) list) \<Rightarrow> 'tx StorageInner \<Rightarrow> u64 \<Rightarrow> B256 option" where
  "block_hash order st num = map_option fst (find (\<lambda>(k, v). num = v) (order (hash_to_number st)))"

definition header_by_hash_or_number :: "'tx StorageInner \<Rightarrow> BlockHashOrNumber \<Rightarrow> Header option" where
  "header_by_hash_or_number st hash_or_num =
     (case (case hash_or_num of Hash hash \<Rightarrow> map_of (hash_to_number st) hash | Number num \<Rightarrow> Some num) of
        None \<Rightarrow> None
      | Some num \<Rightarrow> headers st num)"

section \<open>insert\_new\_block\<close>

definition insert_new_block ::
  "bool \<Rightarrow> 'tx reth \<Rightarrow> Header \<Rightarrow> 'tx BlockBody \<Rightarrow> ('tx StorageInner, unit) act" where
  "insert_new_block oc R header body st =
     (case checked_plus oc (best_block st) 1 of
        Inl p \<Rightarrow> (Inl p, st)
      | Inr n \<Rightarrow>
          (let header = header\<lparr>number := n, parent_hash := best_hash st\<rparr>;
               hash = hash_slow R header in
           (Inr (), st\<lparr>best_hash := hash, best_block := number header,
                       total_difficulty := u256_add R (total_difficulty st) (difficulty header),
                       headers := (headers st)(number header \<mapsto> header),
                       bodies := (bodies st)(hash \<mapsto> body),
                       hash_to_number := AList.update hash (number header) (hash_to_number st)\<rparr>)))"

section \<open>build\_header\_template\<close>

text \<open>The loop that adds up the blob gas of the transactions.\<close>

primrec sum_blob_gas_used :: "bool \<Rightarrow> 'tx reth \<Rightarrow> 'tx list \<Rightarrow> u64 \<Rightarrow> panic + u64" where
  "sum_blob_gas_used oc R [] acc = Inr acc"
| "sum_blob_gas_used oc R (tx # txs) acc =
     (case blob_gas R tx of
        None \<Rightarrow> sum_blob_gas_used oc R txs acc
      | Some g \<Rightarrow>
          (case checked_plus oc acc g of
             Inl p \<Rightarrow> Inl p
           | Inr acc' \<Rightarrow> sum_blob_gas_used oc R txs acc'))"

definition build_header_template ::
  "bool \<Rightarrow> 'tx reth \<Rightarrow> 'tx StorageInner \<Rightarrow> u64 \<Rightarrow> 'tx list \<Rightarrow> Header list \<Rightarrow> Withdrawals option
     \<Rightarrow> Requests option \<Rightarrow> ChainSpec \<Rightarrow> panic + Header" where
  "build_header_template oc R st ts txs ommers withdrawals requests spec =
     (let base_fee = Option.bind (headers st (best_block st))
            (\<lambda>parent. next_block_base_fee R parent (base_fee_params_at_timestamp spec ts)) in
      case (if is_cancun_active_at_timestamp spec ts
            then map_sum id Some (sum_blob_gas_used oc R txs 0) else Inr None) of
        Inl p \<Rightarrow> Inl p
      | Inr blob_gas_sum \<Rightarrow>
      case checked_plus oc (best_block st) 1 of
        Inl p \<Rightarrow> Inl p
      | Inr n \<Rightarrow>
          (let header =
             \<lparr>parent_hash = best_hash st,
              ommers_hash = calculate_ommers_root R ommers,
              beneficiary = 0,
              state_root = 0,
              transactions_root = calculate_transaction_root R txs,
              receipts_root = 0,
              withdrawals_root = map_option (calculate_withdrawals_root R) withdrawals,
              logs_bloom = 0,
              difficulty = 2,
              number = n,
              gas_limit = max_gas_limit spec,
              gas_used = 0,
              timestamp = ts,
              mix_hash = 0,
              nonce = 0,
              base_fee_per_gas = base_fee,
              blob_gas_used = blob_gas_sum,
              excess_blob_gas = None,
              extra_data = [],
              parent_beacon_block_root = None,
              requests_root = map_option (calculate_requests_root R) requests\<rparr> in
           if is_cancun_active_at_timestamp spec ts
           then
             (let parent = headers st (best_block st);
                  (parent_excess, parent_used) =
                    (case parent of
                       Some pb \<Rightarrow>
                         (if is_cancun_active_at_timestamp spec (timestamp pb)
                          then (case excess_blob_gas pb of None \<Rightarrow> 0 | Some x \<Rightarrow> x,
                                case blob_gas_used pb of None \<Rightarrow> 0 | Some x \<Rightarrow> x)
                          else (0, 0))
                     | None \<Rightarrow> (0, 0)) in
              Inr (header\<lparr>parent_beacon_block_root :=
                            Option.bind parent (\<lambda>p. parent_beacon_block_root p),
                          blob_gas_used := Some 0,
                          excess_blob_gas :=
                            Some (calculate_excess_blob_gas R parent_excess parent_used)\<rparr>))
           else Inr header))"

section \<open>build\_and\_execute\<close>

text \<open>
  \<open>SystemTime::now()\<close> and \<open>provider.latest()\<close> are what the environment answers at the time of the
  call: the seconds since the epoch (\<open>None\<close> when the clock is before it) and the latest state.
\<close>

record 'db build_env =
  clock :: "u64 option"
  latest :: "provider_error + 'db"

text \<open>\<open>receipts.iter().map(|r| r.as_ref().unwrap().bloom_slow())\<close>, then the fold with bitwise or.\<close>

primrec receipt_blooms :: "('r \<Rightarrow> Bloom) \<Rightarrow> 'r option list \<Rightarrow> panic + Bloom list" where
  "receipt_blooms bl [] = Inr []"
| "receipt_blooms bl (r # rs) =
     (case r of
        None \<Rightarrow> Inl UnwrapNone
      | Some x \<Rightarrow> map_sum id (\<lambda>bs. bl x # bs) (receipt_blooms bl rs))"

definition merge_blooms :: "Bloom list \<Rightarrow> Bloom" where
  "merge_blooms bs = foldl (\<lambda>bloom r. bloom OR r) 0 bs"

text \<open>The header fields that only the execution determines.\<close>

definition complete_header ::
  "('tx, 'db, 'st, 'r) executor \<Rightarrow> 'db \<Rightarrow> ('st, 'r) ExecutionOutcome \<Rightarrow> u64 \<Rightarrow> Header
     \<Rightarrow> panic + (BlockExecutionError + Header)" where
  "complete_header X db outcome gas header =
     (case db_state_root X db (outcome_state outcome) of
        Inl e \<Rightarrow> Inr (Inl (StateRootError e))
      | Inr root \<Rightarrow>
          (let header = header\<lparr>state_root := root, gas_used := gas\<rparr> in
           case receipt_blooms (bloom_slow X) (receipts_by_block X outcome (number header)) of
             Inl p \<Rightarrow> Inl p
           | Inr blooms \<Rightarrow>
               (let header = header\<lparr>logs_bloom := merge_blooms blooms\<rparr> in
                case receipts_root_slow X outcome (number header) of
                  None \<Rightarrow> Inl (Expect ''Receipts is present'')
                | Some rr \<Rightarrow> Inr (Inr (header\<lparr>receipts_root := rr\<rparr>)))))"

definition build_and_execute ::
  "bool \<Rightarrow> 'tx reth \<Rightarrow> ('tx, 'db, 'st, 'r) executor \<Rightarrow> ChainSpec \<Rightarrow> 'db build_env \<Rightarrow> 'tx list \<Rightarrow> Header list
     \<Rightarrow> ('tx StorageInner, BlockExecutionError + SealedHeader \<times> ('st, 'r) ExecutionOutcome) act" where
  "build_and_execute oc R X spec env txs ommers st =
     (let ts = (case clock env of None \<Rightarrow> 0 | Some t \<Rightarrow> t);
          withdrawals = (if is_shanghai_active_at_timestamp spec ts then Some [] else None);
          requests = (if is_prague_active_at_timestamp spec ts then Some [] else None) in
      case build_header_template oc R st ts txs ommers withdrawals requests spec of
        Inl p \<Rightarrow> (Inl p, st)
      | Inr header \<Rightarrow>
      (let block = \<lparr>block_header = header, block_transactions = txs, block_ommers = ommers,
                    block_withdrawals = withdrawals, block_requests = requests\<rparr> in
      case recover_senders R block of
        None \<Rightarrow> (Inr (Inl SenderRecoveryError), st)
      | Some senders \<Rightarrow>
      case latest env of
        Inl e \<Rightarrow> (Inr (Inl (LatestBlockError e)), st)
      | Inr db \<Rightarrow>
      case execute X db (block, senders) 0 of
        Inl e \<Rightarrow> (Inr (Inl e), st)
      | Inr output \<Rightarrow>
      (let outcome = \<lparr>outcome_state = out_state output, outcome_receipts = out_receipts output,
                      first_block = number header, outcome_requests = [out_requests output]\<rparr>;
           body = \<lparr>body_transactions = txs, body_ommers = ommers,
                   body_withdrawals = withdrawals, body_requests = requests\<rparr> in
      case complete_header X db outcome (out_gas_used output) header of
        Inl p \<Rightarrow> (Inl p, st)
      | Inr (Inl e) \<Rightarrow> (Inr (Inl e), st)
      | Inr (Inr header) \<Rightarrow>
      (case insert_new_block oc R header body st of
         (Inl p, st') \<Rightarrow> (Inl p, st')
       | (Inr _, st') \<Rightarrow>
           (Inr (Inr (\<lparr>header_of = header, seal_hash = best_hash st'\<rparr>, outcome)), st')))))"

section \<open>The chain a storage represents\<close>

type_synonym 'tx blocks = "(Header \<times> 'tx BlockBody) list"

text \<open>Each block points to the hash of the one before and carries the next number.\<close>

primrec linked :: "(Header \<Rightarrow> B256) \<Rightarrow> B256 \<Rightarrow> u64 \<Rightarrow> 'tx blocks \<Rightarrow> bool" where
  "linked hash ph n [] = True"
| "linked hash ph n (hb # bs) =
     (parent_hash (fst hb) = ph \<and> number (fst hb) = n + 1 \<and> linked hash (hash (fst hb)) (number (fst hb)) bs)"

definition tip_hash :: "(Header \<Rightarrow> B256) \<Rightarrow> B256 \<Rightarrow> 'tx blocks \<Rightarrow> B256" where
  "tip_hash hash root bs = (if bs = [] then root else hash (fst (last bs)))"

definition tip_number :: "u64 \<Rightarrow> 'tx blocks \<Rightarrow> u64" where
  "tip_number n bs = (if bs = [] then n else number (fst (last bs)))"

definition header_entries :: "SealedHeader \<Rightarrow> 'tx blocks \<Rightarrow> (u64 \<times> Header) list" where
  "header_entries init bs =
     (number (header_of init), header_of init) # map (\<lambda>hb. (number (fst hb), fst hb)) bs"

definition number_entries :: "(Header \<Rightarrow> B256) \<Rightarrow> 'tx blocks \<Rightarrow> (B256 \<times> u64) list" where
  "number_entries hash bs = map (\<lambda>hb. (hash (fst hb), number (fst hb))) bs"

definition body_entries :: "(Header \<Rightarrow> B256) \<Rightarrow> SealedHeader \<Rightarrow> 'tx blocks \<Rightarrow> (B256 \<times> 'tx BlockBody) list" where
  "body_entries hash init bs = (seal_hash init, default_body) # map (\<lambda>hb. (hash (fst hb), snd hb)) bs"

text \<open>
  The representation relation. Block hashes are pairwise different (what reth's keccak hashing is
  taken to give) and the numbers stay within 64 bits.
\<close>

definition chain_repr :: "'tx reth \<Rightarrow> SealedHeader \<Rightarrow> 'tx blocks \<Rightarrow> 'tx StorageInner \<Rightarrow> bool" where
  "chain_repr R init bs st \<longleftrightarrow>
     linked (hash_slow R) (seal_hash init) (number (header_of init)) bs \<and>
     unat (number (header_of init)) + length bs < 2 ^ 64 \<and>
     distinct (map fst (body_entries (hash_slow R) init bs)) \<and>
     headers st = map_of (header_entries init bs) \<and>
     distinct (map fst (hash_to_number st)) \<and>
     map_of (hash_to_number st) = map_of (number_entries (hash_slow R) bs) \<and>
     bodies st = map_of (body_entries (hash_slow R) init bs) \<and>
     best_hash st = tip_hash (hash_slow R) (seal_hash init) bs \<and>
     best_block st = tip_number (number (header_of init)) bs \<and>
     total_difficulty st = foldl (u256_add R) (difficulty (header_of init)) (map (difficulty \<circ> fst) bs)"

lemma linked_nth:
  assumes "linked hash ph n bs" and "i < length bs"
  shows "number (fst (bs ! i)) = n + of_nat (Suc i)"
    and "parent_hash (fst (bs ! i)) = (if i = 0 then ph else hash (fst (bs ! (i - 1))))"
proof -
  have "number (fst (bs ! i)) = n + of_nat (Suc i) \<and>
      parent_hash (fst (bs ! i)) = (if i = 0 then ph else hash (fst (bs ! (i - 1))))"
    using assms
  proof (induction bs arbitrary: ph n i)
    case (Cons b bs)
    then show ?case by (cases i) (auto simp: nth_Cons' ac_simps)
  qed simp
  then show "number (fst (bs ! i)) = n + of_nat (Suc i)"
    "parent_hash (fst (bs ! i)) = (if i = 0 then ph else hash (fst (bs ! (i - 1))))" by auto
qed

lemma linked_snoc:
  "linked hash ph n (bs @ [hb]) \<longleftrightarrow>
     linked hash ph n bs \<and> parent_hash (fst hb) = tip_hash hash ph bs \<and> number (fst hb) = tip_number n bs + 1"
  by (induction bs arbitrary: ph n) (auto simp: tip_hash_def tip_number_def)

lemma tip_number_linked:
  assumes "linked hash ph n bs"
  shows "tip_number n bs = n + of_nat (length bs)"
  using linked_nth(1)[OF assms, of "length bs - 1"] by (auto simp: tip_number_def last_conv_nth)

lemma unat_plus_of_nat: "unat n + k < 2 ^ 64 \<Longrightarrow> unat ((n::u64) + of_nat k) = unat n + k"
  by (simp add: unat_word_ariths unsigned_of_nat take_bit_nat_eq_self)

lemma number_plus_inject:
  assumes "unat (n::u64) + k < 2 ^ 64" and "i \<le> k" and "j \<le> k" and "n + of_nat i = n + of_nat j"
  shows "i = j"
proof -
  have "unat (n + of_nat i) = unat n + i" "unat (n + of_nat j) = unat n + j"
    using assms(1-3) by (intro unat_plus_of_nat; linarith)+
  then have "unat n + i = unat n + j" unfolding assms(4) by linarith
  then show ?thesis by linarith
qed

lemma header_numbers_distinct:
  assumes "linked hash (seal_hash init) (number (header_of init)) bs"
    and "unat (number (header_of init)) + length bs < 2 ^ 64"
  shows "distinct (map fst (header_entries init bs))"
proof -
  have "map fst (header_entries init bs) = map (\<lambda>i. number (header_of init) + of_nat i) [0..<Suc (length bs)]"
    by (rule nth_equalityI)
      (auto simp: header_entries_def nth_Cons' linked_nth[OF assms(1)] simp del: upt_Suc)
  moreover have "inj_on (\<lambda>i. number (header_of init) + of_nat i) (set [0..<Suc (length bs)])"
    by (rule inj_onI, rule number_plus_inject[OF assms(2)]) auto
  ultimately show ?thesis by (simp add: distinct_map del: upt_Suc)
qed

lemma map_of_snoc: "k \<notin> fst ` set xs \<Longrightarrow> map_of (xs @ [(k, v)]) = (map_of xs)(k \<mapsto> v)"
  by (simp add: map_add_upd_left dom_map_of_conv_image_fst)

section \<open>Insertion extends the chain\<close>

text \<open>The header as \<open>insert_new_block\<close> stores it.\<close>

definition placed :: "'tx StorageInner \<Rightarrow> Header \<Rightarrow> Header" where
  "placed st h = h\<lparr>number := best_block st + 1, parent_hash := best_hash st\<rparr>"

lemma insert_new_block_run:
  assumes "unat (best_block st) + 1 < 2 ^ 64"
  shows "insert_new_block oc R h b st =
    (Inr (), st\<lparr>best_hash := hash_slow R (placed st h), best_block := best_block st + 1,
                total_difficulty := u256_add R (total_difficulty st) (difficulty h),
                headers := (headers st)(best_block st + 1 \<mapsto> placed st h),
                bodies := (bodies st)(hash_slow R (placed st h) \<mapsto> b),
                hash_to_number := AList.update (hash_slow R (placed st h)) (best_block st + 1) (hash_to_number st)\<rparr>)"
  using assms by (simp add: insert_new_block_def checked_plus_exact placed_def Let_def)

lemma chain_repr_new:
  "chain_repr R init [] (Storage_new init)"
  using unat_u64[of "number (header_of init)"]
  by (auto simp: chain_repr_def Storage_new_def Let_def header_entries_def number_entries_def
      body_entries_def tip_hash_def tip_number_def)

lemma chain_repr_best:
  assumes "chain_repr R init bs st"
  shows "unat (best_block st) = unat (number (header_of init)) + length bs"
  using assms tip_number_linked[of "hash_slow R" "seal_hash init" "number (header_of init)" bs]
  by (simp add: chain_repr_def unat_plus_of_nat)

lemma chain_repr_insert:
  assumes repr: "chain_repr R init bs st"
    and room: "unat (best_block st) + 1 < 2 ^ 64"
    and fresh: "bodies st (hash_slow R (placed st h)) = None"
    and run: "insert_new_block oc R h b st = (Inr (), st')"
  shows "chain_repr R init (bs @ [(placed st h, b)]) st'"
proof -
  let ?h = "placed st h"
  let ?hash = "hash_slow R"
  have best: "unat (best_block st) = unat (number (header_of init)) + length bs"
    using repr by (rule chain_repr_best)
  have link: "linked ?hash (seal_hash init) (number (header_of init)) (bs @ [(?h, b)])"
    using repr by (simp add: chain_repr_def linked_snoc placed_def)
  have len: "unat (number (header_of init)) + length (bs @ [(?h, b)]) < 2 ^ 64"
    using room best by simp
  have freshb: "?hash ?h \<notin> fst ` set (body_entries ?hash init bs)"
    using fresh repr by (simp add: chain_repr_def map_of_eq_None_iff)
  have entries:
    "header_entries init (bs @ [(?h, b)]) = header_entries init bs @ [(number ?h, ?h)]"
    "number_entries ?hash (bs @ [(?h, b)]) = number_entries ?hash bs @ [(?hash ?h, number ?h)]"
    "body_entries ?hash init (bs @ [(?h, b)]) = body_entries ?hash init bs @ [(?hash ?h, b)]"
    by (simp_all add: header_entries_def number_entries_def body_entries_def)
  have dh: "distinct (map fst (header_entries init (bs @ [(?h, b)])))"
    using link len by (rule header_numbers_distinct)
  then have freshn: "number ?h \<notin> fst ` set (header_entries init bs)"
    unfolding entries by simp
  have freshx: "?hash ?h \<notin> fst ` set (number_entries ?hash bs)"
    using freshb by (simp add: body_entries_def number_entries_def image_image)
  have st': "st' = st\<lparr>best_hash := ?hash ?h, best_block := number ?h,
                total_difficulty := u256_add R (total_difficulty st) (difficulty ?h),
                headers := (headers st)(number ?h \<mapsto> ?h),
                bodies := (bodies st)(?hash ?h \<mapsto> b),
                hash_to_number := AList.update (?hash ?h) (number ?h) (hash_to_number st)\<rparr>"
    using run insert_new_block_run[OF room, of oc R h b] by (simp add: placed_def)
  show ?thesis
    unfolding chain_repr_def entries map_of_snoc[OF freshn] map_of_snoc[OF freshx] map_of_snoc[OF freshb]
    using repr link len freshb
    by (simp add: chain_repr_def st' update_conv' distinct_update tip_hash_def tip_number_def)
qed

section \<open>Lookups in a represented chain\<close>

abbreviation iteration_order :: "('a list \<Rightarrow> 'a list) \<Rightarrow> bool" where
  "iteration_order order \<equiv> (\<forall>xs. set (order xs) = set xs)"

lemma chain_repr_numbers_distinct:
  "chain_repr R init bs st \<Longrightarrow> distinct (map fst (header_entries init bs))"
  by (rule header_numbers_distinct[of "hash_slow R"]) (simp_all add: chain_repr_def)

lemma nth_in_map: "i < length xs \<Longrightarrow> f (xs ! i) \<in> set (map f xs)"
  by simp

lemma headers_nth:
  assumes "chain_repr R init bs st" and "i < length bs"
  shows "headers st (number (fst (bs ! i))) = Some (fst (bs ! i))"
proof -
  have "(number (fst (bs ! i)), fst (bs ! i)) \<in> set (header_entries init bs)"
    using nth_in_map[OF assms(2), of "\<lambda>hb. (number (fst hb), fst hb)"] by (simp add: header_entries_def)
  with assms chain_repr_numbers_distinct[OF assms(1)] show ?thesis
    by (simp add: chain_repr_def map_of_is_SomeI)
qed

lemma hash_to_number_nth:
  assumes "chain_repr R init bs st" and "i < length bs"
  shows "map_of (hash_to_number st) (hash_slow R (fst (bs ! i))) = Some (number (fst (bs ! i)))"
proof -
  have "distinct (map fst (number_entries (hash_slow R) bs))"
    using assms(1) by (simp add: chain_repr_def body_entries_def number_entries_def comp_def)
  moreover have "(hash_slow R (fst (bs ! i)), number (fst (bs ! i))) \<in> set (number_entries (hash_slow R) bs)"
    using nth_in_map[OF assms(2), of "\<lambda>hb. (hash_slow R (fst hb), number (fst hb))"]
    by (simp add: number_entries_def)
  ultimately show ?thesis using assms(1) by (simp add: chain_repr_def map_of_is_SomeI)
qed

lemma header_by_hash_nth:
  assumes "chain_repr R init bs st" and "i < length bs"
  shows "header_by_hash_or_number st (Hash (hash_slow R (fst (bs ! i)))) = Some (fst (bs ! i))"
  using assms by (simp add: header_by_hash_or_number_def hash_to_number_nth headers_nth)

lemma header_by_number_nth:
  assumes "chain_repr R init bs st" and "i < length bs"
  shows "header_by_hash_or_number st (Number (number (fst (bs ! i)))) = Some (fst (bs ! i))"
  using assms by (simp add: header_by_hash_or_number_def headers_nth)

text \<open>The hash the storage was created with is never entered into \<open>hash_to_number\<close>.\<close>

lemma header_by_root_hash:
  assumes "chain_repr R init bs st"
  shows "header_by_hash_or_number st (Hash (seal_hash init)) = None"
proof -
  have "seal_hash init \<notin> fst ` set (number_entries (hash_slow R) bs)"
    using assms by (simp add: chain_repr_def body_entries_def number_entries_def image_image)
  then have "map_of (hash_to_number st) (seal_hash init) = None"
    using assms by (simp add: chain_repr_def map_of_eq_None_iff)
  then show ?thesis by (simp add: header_by_hash_or_number_def)
qed

lemma header_above_tip:
  assumes repr: "chain_repr R init bs st" and room: "unat (best_block st) + 1 < 2 ^ 64"
  shows "header_by_hash_or_number st (Number (best_block st + 1)) = None"
proof -
  have link: "linked (hash_slow R) (seal_hash init) (number (header_of init))
      (bs @ [(placed st undefined, undefined)])"
    using repr by (simp add: chain_repr_def linked_snoc placed_def)
  have "unat (number (header_of init)) + length (bs @ [(placed st undefined, undefined :: 'a BlockBody)]) < 2 ^ 64"
    using room chain_repr_best[OF repr] by simp
  with link have "distinct (map fst (header_entries init (bs @ [(placed st undefined, undefined)])))"
    by (rule header_numbers_distinct)
  then have "best_block st + 1 \<notin> fst ` set (header_entries init bs)"
    by (auto simp: header_entries_def placed_def image_image)
  then show ?thesis
    using repr by (simp add: header_by_hash_or_number_def chain_repr_def map_of_eq_None_iff)
qed

lemma hash_entries:
  assumes "chain_repr R init bs st"
  shows "set (hash_to_number st) = set (number_entries (hash_slow R) bs)"
proof -
  have d: "distinct (map fst (number_entries (hash_slow R) bs))" "distinct (map fst (hash_to_number st))"
    and eq: "map_of (hash_to_number st) = map_of (number_entries (hash_slow R) bs)"
    using assms by (simp_all add: chain_repr_def body_entries_def number_entries_def comp_def)
  have "(k, v) \<in> set (hash_to_number st) \<longleftrightarrow> (k, v) \<in> set (number_entries (hash_slow R) bs)" for k v
    unfolding map_of_eq_Some_iff[OF d(1), symmetric] map_of_eq_Some_iff[OF d(2), symmetric] eq ..
  then show ?thesis by auto
qed

lemma block_hash_nth:
  assumes repr: "chain_repr R init bs st" and i: "i < length bs" and ord: "iteration_order order"
  shows "block_hash order st (number (fst (bs ! i))) = Some (hash_slow R (fst (bs ! i)))"
proof -
  let ?n = "number (fst (bs ! i))"
  have in_entries: "set (order (hash_to_number st)) = set (number_entries (hash_slow R) bs)"
    using hash_entries[OF repr] ord by simp
  have only: "e = (hash_slow R (fst (bs ! i)), ?n)" if e: "e \<in> set (number_entries (hash_slow R) bs)" "snd e = ?n" for e
  proof -
    from e obtain j where j: "j < length bs" "e = (hash_slow R (fst (bs ! j)), number (fst (bs ! j)))"
      by (auto simp: number_entries_def in_set_conv_nth)
    have "headers st ?n = Some (fst (bs ! j))" using headers_nth[OF repr j(1)] j e(2) by simp
    with headers_nth[OF repr i] j show ?thesis by simp
  qed
  have "(hash_slow R (fst (bs ! i)), ?n) \<in> set (order (hash_to_number st))"
    unfolding in_entries
    using nth_in_map[OF i, of "\<lambda>hb. (hash_slow R (fst hb), number (fst hb))"] by (simp add: number_entries_def)
  then obtain e where e: "find (\<lambda>(k, v). ?n = v) (order (hash_to_number st)) = Some e"
    by (cases "find (\<lambda>(k, v). ?n = v) (order (hash_to_number st))") (auto simp: find_None_iff)
  then have "e \<in> set (order (hash_to_number st))" "snd e = ?n"
    by (auto simp: find_Some_iff case_prod_beta)
  with only in_entries have "e = (hash_slow R (fst (bs ! i)), ?n)" by blast
  with e show ?thesis by (simp add: block_hash_def)
qed

lemma block_hash_root:
  assumes repr: "chain_repr R init bs st" and ord: "iteration_order order"
  shows "block_hash order st (number (header_of init)) = None"
proof -
  have "number (header_of init) \<notin> snd ` set (number_entries (hash_slow R) bs)"
    using chain_repr_numbers_distinct[OF repr]
    by (simp add: header_entries_def number_entries_def image_image)
  then have "find (\<lambda>(k, v). number (header_of init) = v) (order (hash_to_number st)) = None"
    using hash_entries[OF repr] ord by (force simp: find_None_iff)
  then show ?thesis by (simp add: block_hash_def)
qed

lemma bodies_nth:
  assumes "chain_repr R init bs st" and "i < length bs"
  shows "bodies st (hash_slow R (fst (bs ! i))) = Some (snd (bs ! i))"
proof -
  have "(hash_slow R (fst (bs ! i)), snd (bs ! i)) \<in> set (body_entries (hash_slow R) init bs)"
    using nth_in_map[OF assms(2), of "\<lambda>hb. (hash_slow R (fst hb), snd hb)"] by (simp add: body_entries_def)
  with assms(1) show ?thesis by (simp add: chain_repr_def map_of_is_SomeI)
qed

text \<open>The block with a given number, by its position in the chain.\<close>

definition chain_index :: "SealedHeader \<Rightarrow> 'tx blocks \<Rightarrow> u64 \<Rightarrow> (Header \<times> 'tx BlockBody) option" where
  "chain_index init bs n =
     (let k = unat n - unat (number (header_of init)) in
      if 0 < k \<and> k \<le> length bs then Some (bs ! (k - 1)) else None)"

lemma number_nth:
  assumes "chain_repr R init bs st" and "i < length bs"
  shows "unat (number (fst (bs ! i))) = unat (number (header_of init)) + Suc i"
  using assms linked_nth(1)[of "hash_slow R" "seal_hash init" "number (header_of init)" bs i]
    unat_plus_of_nat[of "number (header_of init)" "Suc i"]
  by (simp add: chain_repr_def)

lemma chain_index_Some:
  assumes repr: "chain_repr R init bs st"
  shows "chain_index init bs n = Some b \<longleftrightarrow> (\<exists>i<length bs. bs ! i = b \<and> number (fst b) = n)"
proof
  assume "chain_index init bs n = Some b"
  then obtain i where i: "i < length bs" "bs ! i = b" "unat n = unat (number (header_of init)) + Suc i"
    by (auto simp: chain_index_def Let_def split: if_splits intro!: that[of "unat n - unat (number (header_of init)) - 1"])
  then have "number (fst b) = n" using number_nth[OF repr i(1)] by (simp add: word_unat_eq_iff)
  with i show "\<exists>i<length bs. bs ! i = b \<and> number (fst b) = n" by blast
next
  assume "\<exists>i<length bs. bs ! i = b \<and> number (fst b) = n"
  then obtain i where i: "i < length bs" "bs ! i = b" "number (fst b) = n" by blast
  then have "unat n = unat (number (header_of init)) + Suc i" using number_nth[OF repr i(1)] by simp
  with i show "chain_index init bs n = Some b" by (simp add: chain_index_def Let_def)
qed

lemma block_hash_index:
  assumes repr: "chain_repr R init bs st" and ord: "iteration_order order"
  shows "block_hash order st n = map_option (\<lambda>b. hash_slow R (fst b)) (chain_index init bs n)"
proof (cases "chain_index init bs n")
  case (Some b)
  then obtain i where "i < length bs" "bs ! i = b" "number (fst b) = n" unfolding chain_index_Some[OF repr] by blast
  with Some block_hash_nth[OF repr _ ord, of i] show ?thesis by simp
next
  case None
  have "number (fst b) \<noteq> n" if b: "b \<in> set bs" for b
  proof
    assume "number (fst b) = n"
    with b have "chain_index init bs n = Some b" unfolding chain_index_Some[OF repr] in_set_conv_nth by auto
    with None show False by simp
  qed
  moreover have "snd ` set (order (hash_to_number st)) = (\<lambda>b. number (fst b)) ` set bs"
    using hash_entries[OF repr] ord by (simp add: number_entries_def image_image)
  ultimately have "n \<notin> snd ` set (order (hash_to_number st))" by auto
  then have "find (\<lambda>(k, v). n = v) (order (hash_to_number st)) = None" by (force simp: find_None_iff)
  with None show ?thesis by (simp add: block_hash_def)
qed

lemma header_by_number_index:
  assumes repr: "chain_repr R init bs st" and "n \<noteq> number (header_of init)"
  shows "header_by_hash_or_number st (Number n) = map_option fst (chain_index init bs n)"
proof (cases "chain_index init bs n")
  case (Some b)
  then obtain i where "i < length bs" "bs ! i = b" "number (fst b) = n" unfolding chain_index_Some[OF repr] by blast
  with Some header_by_number_nth[OF repr, of i] show ?thesis by simp
next
  case None
  have "\<nexists>b. b \<in> set bs \<and> number (fst b) = n"
    using None chain_index_Some[OF repr, of n] by (metis in_set_conv_nth option.distinct(1))
  then have "n \<notin> fst ` set (header_entries init bs)" using assms(2) by (auto simp: header_entries_def)
  then show ?thesis
    using None repr by (simp add: header_by_hash_or_number_def chain_repr_def map_of_eq_None_iff)
qed

section \<open>Building a block\<close>

lemma template_fields:
  assumes "build_header_template oc R st ts txs ommers withdrawals requests spec = Inr h"
  shows "number h = best_block st + 1" and "parent_hash h = best_hash st" and "timestamp h = ts"
    and "transactions_root h = calculate_transaction_root R txs"
    and "ommers_hash h = calculate_ommers_root R ommers"
    and "withdrawals_root h = map_option (calculate_withdrawals_root R) withdrawals"
    and "requests_root h = map_option (calculate_requests_root R) requests"
    and "difficulty h = 2" and "gas_limit h = max_gas_limit spec"
    and "blob_gas_used h = (if is_cancun_active_at_timestamp spec ts then Some 0 else None)"
    and "excess_blob_gas h = None \<longleftrightarrow> \<not> is_cancun_active_at_timestamp spec ts"
  using assms
  by (auto simp: build_header_template_def Let_def dest!: checked_plus_Inr
      split: if_splits sum.splits prod.splits)

lemma complete_header_keeps:
  assumes "complete_header X db outcome gas h = Inr (Inr h')"
  shows "\<exists>root bloom rr. h' = h\<lparr>state_root := root, gas_used := gas, logs_bloom := bloom, receipts_root := rr\<rparr>
     \<and> db_state_root X db (outcome_state outcome) = Inr root"
  using assms
  by (auto simp: complete_header_def Let_def split: sum.splits option.splits)

lemma insert_new_block_unchanged:
  "insert_new_block oc R h b st = (Inl p, st') \<Longrightarrow> st' = st"
  by (auto simp: insert_new_block_def Let_def split: sum.splits)

text \<open>Whatever goes wrong while a block is built, the storage keeps its old contents.\<close>

lemma build_failed_unchanged:
  assumes "build_and_execute oc R X spec env txs ommers st = (r, st')"
    and "\<And>v. r \<noteq> Inr (Inr v)"
  shows "st' = st"
  using assms unfolding build_and_execute_def Let_def
  by (auto split: option.splits sum.splits prod.splits dest: insert_new_block_unchanged)

text \<open>
  A successful build: the returned header is the one that was stored, and the hash it is sealed
  with is its own.
\<close>

lemma build_succeeded:
  assumes run: "build_and_execute oc R X spec env txs ommers st = (Inr (Inr (sh, outcome)), st')"
  obtains body where "body_transactions body = txs" "body_ommers body = ommers"
    "placed st (header_of sh) = header_of sh"
    "insert_new_block oc R (header_of sh) body st = (Inr (), st')"
    "seal_hash sh = hash_slow R (header_of sh)" "best_hash st' = seal_hash sh"
    "transactions_root (header_of sh) = calculate_transaction_root R txs"
proof -
  let ?ts = "case clock env of None \<Rightarrow> 0 | Some t \<Rightarrow> t"
  let ?wd = "if is_shanghai_active_at_timestamp spec ?ts then Some [] else None"
  let ?rq = "if is_prague_active_at_timestamp spec ?ts then Some [] else None"
  let ?body = "\<lparr>body_transactions = txs, body_ommers = ommers, body_withdrawals = ?wd, body_requests = ?rq\<rparr>"
  obtain h db gas where
    tmpl: "build_header_template oc R st ?ts txs ommers ?wd ?rq spec = Inr h" and
    compl: "complete_header X db outcome gas h = Inr (Inr (header_of sh))" and
    ins: "insert_new_block oc R (header_of sh) ?body st = (Inr (), st')" and
    hash: "seal_hash sh = best_hash st'"
    using run unfolding build_and_execute_def Let_def
    by (auto split: option.splits sum.splits prod.splits)
  have fields: "number (header_of sh) = best_block st + 1" "parent_hash (header_of sh) = best_hash st"
    "transactions_root (header_of sh) = calculate_transaction_root R txs"
    using complete_header_keeps[OF compl] template_fields[OF tmpl] by auto
  then have placed: "placed st (header_of sh) = header_of sh" by (simp add: placed_def)
  have "best_hash st' = hash_slow R (placed st (header_of sh))"
    using ins by (auto simp: insert_new_block_def placed_def Let_def dest!: checked_plus_Inr split: sum.splits)
  with placed hash fields ins that[of ?body] show thesis by simp
qed

lemma build_extends_chain:
  assumes repr: "chain_repr R init bs st" and room: "unat (best_block st) + 1 < 2 ^ 64"
    and run: "build_and_execute oc R X spec env txs ommers st = (Inr (Inr (sh, outcome)), st')"
    and fresh: "bodies st (seal_hash sh) = None"
  obtains body where "body_transactions body = txs" "body_ommers body = ommers"
    "chain_repr R init (bs @ [(header_of sh, body)]) st'"
proof -
  obtain body where b: "body_transactions body = txs" "body_ommers body = ommers"
    "placed st (header_of sh) = header_of sh"
    "insert_new_block oc R (header_of sh) body st = (Inr (), st')"
    "seal_hash sh = hash_slow R (header_of sh)"
    using run by (rule build_succeeded)
  have "chain_repr R init (bs @ [(placed st (header_of sh), body)]) st'"
    by (rule chain_repr_insert[OF repr room _ b(4)]) (use fresh b in simp)
  with b that show thesis by simp
qed

lemma bit_merge_blooms: "bit (merge_blooms bs) i \<longleftrightarrow> (\<exists>b\<in>set bs. bit b i)"
proof -
  have "bit (foldl (\<lambda>bloom r. bloom OR r) acc bs) i \<longleftrightarrow> bit acc i \<or> (\<exists>b\<in>set bs. bit b i)" for acc :: Bloom
    by (induction bs arbitrary: acc) (auto simp: bit_or_iff)
  then show ?thesis by (simp add: merge_blooms_def)
qed

lemma receipt_blooms_Inr: "receipt_blooms bl rs = Inr bs \<Longrightarrow> \<exists>xs. rs = map Some xs \<and> bs = map bl xs"
proof (induction rs arbitrary: bs)
  case Nil
  then show ?case by simp
next
  case (Cons r rs)
  then obtain x cs where x: "r = Some x" "receipt_blooms bl rs = Inr cs" "bs = bl x # cs"
    by (cases r; cases "receipt_blooms bl rs") auto
  with Cons.IH obtain xs where "rs = map Some xs \<and> cs = map bl xs" by blast
  with x show ?case by (intro exI[of _ "x # xs"]) simp
qed

section \<open>Fresh hashes\<close>

text \<open>
  What is taken of block hashing: headers with different numbers have different hashes, and so has
  the initial block (keccak over an encoding that has the number in it).
\<close>

definition hash_separates :: "'tx reth \<Rightarrow> SealedHeader \<Rightarrow> bool" where
  "hash_separates R init \<longleftrightarrow>
     (\<forall>h h'. hash_slow R h = hash_slow R h' \<longrightarrow> number h = number h') \<and>
     (\<forall>h. hash_slow R h = seal_hash init \<longrightarrow> number h = number (header_of init))"

lemma placed_number: "number (placed st h) = best_block st + 1"
  by (simp add: placed_def)

text \<open>Under \<open>hash_separates\<close> a block that is placed on the tip has a new hash.\<close>

lemma separates_fresh:
  assumes sep: "hash_separates R init" and repr: "chain_repr R init bs st"
    and room: "unat (best_block st) + 1 < 2 ^ 64" and num: "number h = best_block st + 1"
  shows "bodies st (hash_slow R h) = None"
proof (rule ccontr)
  assume "bodies st (hash_slow R h) \<noteq> None"
  then have "hash_slow R h \<in> fst ` set (body_entries (hash_slow R) init bs)"
    using repr unfolding chain_repr_def by (metis map_of_eq_None_iff)
  then consider "hash_slow R h = seal_hash init" | hb where "hb \<in> set bs" "hash_slow R h = hash_slow R (fst hb)"
    unfolding body_entries_def by auto
  then have "number h \<in> fst ` set (header_entries init bs)"
  proof cases
    case 1
    with sep have "number h = number (header_of init)" unfolding hash_separates_def by blast
    then show ?thesis by (simp add: header_entries_def)
  next
    case (2 hb)
    from sep 2(2) have "number h = number (fst hb)" unfolding hash_separates_def by blast
    with 2(1) show ?thesis by (force simp: header_entries_def)
  qed
  then have "headers st (best_block st + 1) \<noteq> None"
    using repr num unfolding chain_repr_def by (metis map_of_eq_None_iff)
  moreover have "header_by_hash_or_number st (Number (best_block st + 1)) = None"
    using header_above_tip[OF repr room] .
  ultimately show False by (simp add: header_by_hash_or_number_def)
qed

section \<open>A concrete chain\<close>

text \<open>
  Small instances of the parameters, on which the assumptions of the theorems are discharged: the
  hash of a header is its number, execution succeeds without receipts.
\<close>

definition blank_header :: "u64 \<Rightarrow> Header" where
  "blank_header n =
     \<lparr>parent_hash = 0, ommers_hash = 0, beneficiary = 0, state_root = 0, transactions_root = 0,
      receipts_root = 0, withdrawals_root = None, logs_bloom = 0, difficulty = 0, number = n,
      gas_limit = 0, gas_used = 0, timestamp = 0, mix_hash = 0, nonce = 0, base_fee_per_gas = None,
      blob_gas_used = None, excess_blob_gas = None, extra_data = [], parent_beacon_block_root = None,
      requests_root = None\<rparr>"

definition toy_genesis :: SealedHeader where
  "toy_genesis = \<lparr>header_of = blank_header 0, seal_hash = 0\<rparr>"

definition toy_reth :: "'tx reth" where
  "toy_reth =
     \<lparr>hash_slow = (\<lambda>h. ucast (number h)), next_block_base_fee = (\<lambda>h p. Some 7), blob_gas = (\<lambda>tx. Some 5),
      calculate_ommers_root = (\<lambda>_. 0), calculate_transaction_root = (\<lambda>txs. of_nat (length txs)),
      calculate_withdrawals_root = (\<lambda>_. 0), calculate_requests_root = (\<lambda>_. 0),
      calculate_excess_blob_gas = (\<lambda>x y. x + y), recover_senders = (\<lambda>b. Some []), u256_add = (+),
      tx_hash = (\<lambda>_. 0)\<rparr>"

definition toy_spec :: "bool \<Rightarrow> ChainSpec" where
  "toy_spec cancun =
     \<lparr>max_gas_limit = 100, base_fee_params_at_timestamp = (\<lambda>_. (1, 1)),
      is_shanghai_active_at_timestamp = (\<lambda>_. True), is_cancun_active_at_timestamp = (\<lambda>_. cancun),
      is_prague_active_at_timestamp = (\<lambda>_. False)\<rparr>"

definition toy_executor :: "('tx, unit, unit, unit) executor" where
  "toy_executor =
     \<lparr>execute = (\<lambda>db b td. Inr \<lparr>out_state = (), out_receipts = [()], out_requests = [], out_gas_used = 21\<rparr>),
      db_state_root = (\<lambda>db st. Inr 9), receipts_by_block = (\<lambda>_ _. [Some ()]), bloom_slow = (\<lambda>_. 6),
      receipts_root_slow = (\<lambda>_ _. Some 8)\<rparr>"

definition toy_env :: "unit build_env" where
  "toy_env = \<lparr>clock = Some 12, latest = Inr ()\<rparr>"

lemma toy_build:
  assumes "unat (best_block st) + 1 < 2 ^ 64"
  shows "\<exists>sh outcome st'. build_and_execute oc toy_reth toy_executor (toy_spec False) toy_env txs [] st
      = (Inr (Inr (sh, outcome)), st')"
proof -
  have plus: "checked_plus oc (best_block st) 1 = Inr (best_block st + 1)"
    using assms by (simp add: checked_plus_exact)
  show ?thesis
    by (simp add: build_and_execute_def build_header_template_def insert_new_block_def complete_header_def
        toy_reth_def toy_executor_def toy_spec_def toy_env_def plus Let_def)
qed

lemma toy_hash_inject: "(ucast (x::u64) :: B256) = ucast y \<longleftrightarrow> x = y"
proof -
  have "unat (ucast z :: B256) = unat z" for z :: u64
    using unat_u64[of z] by (simp add: unsigned_ucast_eq take_bit_nat_eq_self)
  then show ?thesis by (metis word_unat_eq_iff)
qed

lemma toy_separates: "hash_separates toy_reth toy_genesis"
  using toy_hash_inject[of _ 0]
  by (simp add: hash_separates_def toy_reth_def toy_genesis_def blank_header_def toy_hash_inject)

section \<open>Properties of the storage\<close>

lemma toy_repr: "chain_repr toy_reth toy_genesis [] (Storage_new toy_genesis)"
  by (rule chain_repr_new)

lemma toy_room: "unat (best_block (Storage_new toy_genesis)) + 1 < 2 ^ 64"
  by (simp add: Storage_new_def toy_genesis_def blank_header_def)

text \<open>C4: inserting a block implements appending it to the chain: on a storage that represents a
  chain, with a block number left and a hash that is not in use, \<open>insert_new_block\<close> succeeds, the
  result represents the chain extended by the block as placed on the tip, and the new block is found by
  its hash, by its number, and with its body.\<close>

theorem insert_extends_chain:
  assumes repr: "chain_repr R init bs st" and room: "unat (best_block st) + 1 < 2 ^ 64"
    and fresh: "bodies st (hash_slow R (placed st h)) = None"
  shows "\<exists>st'. insert_new_block oc R h b st = (Inr (), st') \<and>
    chain_repr R init (bs @ [(placed st h, b)]) st' \<and>
    header_by_hash_or_number st' (Hash (hash_slow R (placed st h))) = Some (placed st h) \<and>
    header_by_hash_or_number st' (Number (best_block st + 1)) = Some (placed st h) \<and>
    bodies st' (hash_slow R (placed st h)) = Some b"
proof -
  obtain st' where run: "insert_new_block oc R h b st = (Inr (), st')"
    using insert_new_block_run[OF room] by metis
  have repr': "chain_repr R init (bs @ [(placed st h, b)]) st'"
    using repr room fresh run by (rule chain_repr_insert)
  then show ?thesis
    using run header_by_hash_nth[OF repr', of "length bs"] header_by_number_nth[OF repr', of "length bs"]
      bodies_nth[OF repr', of "length bs"]
    by (simp add: placed_number)
qed

theorem insert_extends_chain_witness:
  "\<exists>st'. insert_new_block True toy_reth (blank_header 5) default_body (Storage_new toy_genesis :: nat StorageInner) = (Inr (), st') \<and>
     header_by_hash_or_number st' (Number 1) =
       Some (placed (Storage_new toy_genesis :: nat StorageInner) (blank_header 5))"
proof -
  have "best_block (Storage_new toy_genesis :: nat StorageInner) = 0"
    by (simp add: Storage_new_def toy_genesis_def blank_header_def)
  then show ?thesis
    using insert_extends_chain[OF toy_repr toy_room
        separates_fresh[OF toy_separates toy_repr toy_room placed_number], of True "blank_header 5" default_body]
    by auto
qed

text \<open>at the last block number, \<open>insert_new_block\<close> panics and leaves the storage alone in a build
  with overflow checks, and without them starts over at block number 0.\<close>

theorem insert_at_last_number:
  assumes "best_block st = - 1"
  shows "insert_new_block True R h b st = (Inl ArithOverflow, st) \<and>
    (\<exists>st'. insert_new_block False R h b st = (Inr (), st') \<and> best_block st' = 0)"
  using assms
  by (simp add: insert_new_block_def checked_plus_def Let_def unsigned_minus_1_eq_mask mask_eq_exp_minus_1)

theorem insert_at_last_number_witness:
  "insert_new_block True toy_reth (blank_header 0) default_body
       ((Storage_new toy_genesis :: nat StorageInner)\<lparr>best_block := - 1\<rparr>)
     = (Inl ArithOverflow, (Storage_new toy_genesis)\<lparr>best_block := - 1\<rparr>)"
  using insert_at_last_number[of "(Storage_new toy_genesis :: nat StorageInner)\<lparr>best_block := - 1\<rparr>"] by simp

text \<open>C11: a block that is built and executed extends the chain: its header carries the next number and
  the old tip as its parent, is sealed with its own hash, becomes the tip, and its body holds exactly
  the transactions of the block.\<close>

theorem built_block_extends_chain:
  assumes repr: "chain_repr R init bs st" and room: "unat (best_block st) + 1 < 2 ^ 64"
    and sep: "hash_separates R init"
    and run: "build_and_execute oc R X spec env txs ommers st = (Inr (Inr (sh, outcome)), st')"
  shows "number (header_of sh) = best_block st + 1 \<and> parent_hash (header_of sh) = best_hash st \<and>
    seal_hash sh = hash_slow R (header_of sh) \<and> best_hash st' = seal_hash sh \<and>
    (\<exists>body. body_transactions body = txs \<and> chain_repr R init (bs @ [(header_of sh, body)]) st')"
proof -
  obtain b where b: "placed st (header_of sh) = header_of sh" "seal_hash sh = hash_slow R (header_of sh)"
      "best_hash st' = seal_hash sh"
    using run by (rule build_succeeded)
  have num: "number (header_of sh) = best_block st + 1" using b(1) by (metis placed_number)
  have par: "parent_hash (header_of sh) = best_hash st"
    using arg_cong[OF b(1), of parent_hash] by (simp add: placed_def)
  have "bodies st (seal_hash sh) = None" using separates_fresh[OF sep repr room num] b by simp
  then obtain body where "body_transactions body = txs" "chain_repr R init (bs @ [(header_of sh, body)]) st'"
    using build_extends_chain[OF repr room run] by metis
  with b num par show ?thesis by blast
qed

theorem built_block_extends_chain_witness:
  "\<exists>sh outcome st'. build_and_execute True toy_reth toy_executor (toy_spec False) toy_env [1, 2 :: nat] []
       (Storage_new toy_genesis) = (Inr (Inr (sh, outcome)), st') \<and>
     best_hash st' = seal_hash sh \<and> parent_hash (header_of sh) = best_hash (Storage_new toy_genesis :: nat StorageInner)"
proof -
  obtain sh outcome st' where run: "build_and_execute True toy_reth toy_executor (toy_spec False) toy_env
      [1, 2 :: nat] [] (Storage_new toy_genesis) = (Inr (Inr (sh, outcome)), st')"
    using toy_build[OF toy_room] by metis
  with built_block_extends_chain[OF toy_repr toy_room toy_separates run] show ?thesis by blast
qed

text \<open>C22: when a block cannot be built (senders that cannot be recovered, no state, a failed execution,
  a failed state root, or any panic on the way), the storage is as before.\<close>

theorem failed_build_keeps_storage:
  assumes "build_and_execute oc R X spec env txs ommers st = (r, st')" and "\<And>v. r \<noteq> Inr (Inr v)"
  shows "st' = st"
  using assms by (rule build_failed_unchanged)

theorem failed_build_keeps_storage_witness:
  "\<exists>r st'. build_and_execute True toy_reth toy_executor (toy_spec False)
       (toy_env\<lparr>latest := Inl (ProviderError ''db'')\<rparr>) [1 :: nat] [] (Storage_new toy_genesis) = (r, st') \<and>
     r = Inr (Inl (LatestBlockError (ProviderError ''db''))) \<and> st' = Storage_new toy_genesis"
proof -
  have plus: "checked_plus True (best_block (Storage_new toy_genesis :: nat StorageInner)) 1 = Inr 1"
    by (simp add: checked_plus_def Storage_new_def toy_genesis_def blank_header_def)
  obtain st' where run: "build_and_execute True toy_reth toy_executor (toy_spec False)
       (toy_env\<lparr>latest := Inl (ProviderError ''db'')\<rparr>) [1 :: nat] [] (Storage_new toy_genesis)
     = (Inr (Inl (LatestBlockError (ProviderError ''db''))), st')"
    by (simp add: build_and_execute_def build_header_template_def toy_reth_def toy_spec_def toy_env_def plus Let_def)
  with failed_build_keeps_storage[OF run] show ?thesis by simp
qed



text \<open>under Cancun the blob gas of the transactions is added up but not kept: whatever the sum, the
  header that \<open>build_header_template\<close> returns says \<open>Some(0)\<close>, because the field is overwritten.\<close>

theorem template_forgets_blob_gas:
  assumes "is_cancun_active_at_timestamp spec ts"
    and "build_header_template oc R st ts txs ommers withdrawals requests spec = Inr h"
  shows "blob_gas_used h = Some 0 \<and> (\<exists>total. sum_blob_gas_used oc R txs 0 = Inr total)"
  using assms template_fields(10)[OF assms(2)]
  by (cases "sum_blob_gas_used oc R txs 0") (auto simp: build_header_template_def Let_def)

theorem template_forgets_blob_gas_witness:
  "\<exists>h. build_header_template True toy_reth (Storage_new toy_genesis) 12 [1, 2 :: nat] [] None None (toy_spec True) = Inr h \<and>
     sum_blob_gas_used True (toy_reth :: nat reth) [1, 2] 0 = Inr 10 \<and> blob_gas_used h = Some 0"
proof -
  have "\<exists>h. build_header_template True toy_reth (Storage_new toy_genesis) 12 [1, 2 :: nat] [] None None (toy_spec True) = Inr h"
    by (simp add: build_header_template_def toy_reth_def toy_spec_def Storage_new_def toy_genesis_def
        blank_header_def checked_plus_def Let_def)
  moreover have "is_cancun_active_at_timestamp (toy_spec True) 12" by (simp add: toy_spec_def)
  moreover have "sum_blob_gas_used True (toy_reth :: nat reth) [1, 2] 0 = Inr 10"
    by (simp add: toy_reth_def checked_plus_def)
  ultimately show ?thesis using template_forgets_blob_gas by blast
qed

end
