(* ===== verification/Download_Client.thy ===== *)
theory Download_Client
  imports Chain_Storage
begin

text \<open>
  \<open>chain/client.rs\<close>: the download client, from which the engine's pipeline fetches the headers and
  bodies of the blocks that the task inserted into the shared storage.

  The client only reads, under the read lock; its operations are functions of the storage. The
  locales \<open>header_chain\<close> and \<open>block_source\<close> state what a falling and a rising walk through the
  headers rely on, and their lemmas say what the walks return; the storage interprets both.
\<close>

section \<open>Definitions\<close>

datatype HeadersDirection = Falling | Rising

record HeadersRequest =
  start :: BlockHashOrNumber
  limit :: u64
  direction :: HeadersDirection

text \<open>The loop \<open>for _ in 0..limit\<close> of \<open>fetch_headers\<close>.\<close>

fun fetch_loop ::
  "bool \<Rightarrow> (BlockHashOrNumber \<Rightarrow> Header option) \<Rightarrow> HeadersDirection \<Rightarrow> nat \<Rightarrow> BlockHashOrNumber
     \<Rightarrow> panic + Header list" where
  "fetch_loop oc lookup dir 0 block = Inr []"
| "fetch_loop oc lookup dir (Suc n) block =
     (case lookup block of
        None \<Rightarrow> Inr []
      | Some header \<Rightarrow>
          (case (case dir of
                   Falling \<Rightarrow> Inr (Hash (parent_hash header))
                 | Rising \<Rightarrow> map_sum id Number (checked_plus oc (number header) 1)) of
             Inl p \<Rightarrow> Inl p
           | Inr block' \<Rightarrow> map_sum id (\<lambda>hs. header # hs) (fetch_loop oc lookup dir n block')))"

definition fetch_headers ::
  "bool \<Rightarrow> ((B256 \<times> BlockNumber) list \<Rightarrow> (B256 \<times> BlockNumber) list) \<Rightarrow> 'tx StorageInner \<Rightarrow> HeadersRequest
     \<Rightarrow> panic + Header list" where
  "fetch_headers oc order st request =
     (case (case start request of
              Hash h \<Rightarrow> Some (Hash h)
            | Number num \<Rightarrow> map_option Hash (block_hash order st num)) of
        None \<Rightarrow> Inr []
      | Some block \<Rightarrow>
          fetch_loop oc (header_by_hash_or_number st) (direction request) (unat (limit request)) block)"

primrec fetch_bodies :: "'tx StorageInner \<Rightarrow> B256 list \<Rightarrow> 'tx BlockBody list" where
  "fetch_bodies st [] = []"
| "fetch_bodies st (hash # hashes) =
     (case bodies st hash of
        None \<Rightarrow> []
      | Some body \<Rightarrow> body # fetch_bodies st hashes)"

text \<open>The answers carry a random peer identifier, the argument \<open>peer\<close>.\<close>

definition get_headers_with_priority ::
  "bool \<Rightarrow> ((B256 \<times> BlockNumber) list \<Rightarrow> (B256 \<times> BlockNumber) list) \<Rightarrow> 'tx StorageInner \<Rightarrow> 'p \<Rightarrow> HeadersRequest
     \<Rightarrow> panic + 'p \<times> Header list" where
  "get_headers_with_priority oc order st peer request =
     map_sum id (\<lambda>hs. (peer, hs)) (fetch_headers oc order st request)"

definition get_block_bodies_with_priority ::
  "'tx StorageInner \<Rightarrow> 'p \<Rightarrow> B256 list \<Rightarrow> 'p \<times> 'tx BlockBody list" where
  "get_block_bodies_with_priority st peer hashes = (peer, fetch_bodies st hashes)"

definition num_connected_peers :: nat where
  "num_connected_peers = 1"

section \<open>What the client relies on\<close>

text \<open>
  \<open>src hs root s\<close>: the state \<open>s\<close> serves the headers \<open>hs\<close>, oldest first, on top of a block with the
  hash \<open>root\<close> that it does not serve by hash.
\<close>

locale header_chain =
  fixes src :: "Header list \<Rightarrow> B256 \<Rightarrow> 's \<Rightarrow> bool"
    and by_id :: "'s \<Rightarrow> BlockHashOrNumber \<Rightarrow> Header option"
    and hash_of :: "Header \<Rightarrow> B256"
  assumes by_hash: "src hs root s \<Longrightarrow> i < length hs \<Longrightarrow> by_id s (Hash (hash_of (hs ! i))) = Some (hs ! i)"
    and root_unknown: "src hs root s \<Longrightarrow> by_id s (Hash root) = None"
    and parents: "src hs root s \<Longrightarrow> i < length hs \<Longrightarrow>
      parent_hash (hs ! i) = (if i = 0 then root else hash_of (hs ! (i - 1)))"
begin

lemma falling_walk:
  assumes "src hs root s" and "i < length hs"
  shows "fetch_loop oc (by_id s) Falling n (Hash (hash_of (hs ! i))) = Inr (take n (rev (take (Suc i) hs)))"
  using assms(2)
proof (induction n arbitrary: i)
  case 0
  then show ?case by simp
next
  case (Suc n)
  have found: "by_id s (Hash (hash_of (hs ! i))) = Some (hs ! i)" using assms(1) Suc.prems by (rule by_hash)
  have step: "take (Suc i) hs = take i hs @ [hs ! i]" using Suc.prems by (rule take_Suc_conv_app_nth)
  show ?case
  proof (cases i)
    case 0
    then have "parent_hash (hs ! i) = root" using parents[OF assms(1) Suc.prems] by simp
    moreover have "fetch_loop oc (by_id s) Falling n (Hash root) = Inr []"
      by (cases n) (simp_all add: root_unknown[OF assms(1)])
    ultimately show ?thesis using found 0 step by simp
  next
    case (Suc j)
    then have "parent_hash (hs ! i) = hash_of (hs ! j)" using parents[OF assms(1) Suc.prems] by simp
    moreover have "fetch_loop oc (by_id s) Falling n (Hash (hash_of (hs ! j))) = Inr (take n (rev (take (Suc j) hs)))"
      using Suc.IH Suc.prems Suc by simp
    ultimately show ?thesis using found step Suc by simp
  qed
qed

end

text \<open>A rising walk continues by number, so it needs the numbers too.\<close>

locale block_source = header_chain +
  assumes by_number: "src hs root s \<Longrightarrow> i < length hs \<Longrightarrow> by_id s (Number (number (hs ! i))) = Some (hs ! i)"
    and beyond_unknown: "src hs root s \<Longrightarrow> hs \<noteq> [] \<Longrightarrow> by_id s (Number (number (last hs) + 1)) = None"
    and numbers: "src hs root s \<Longrightarrow> Suc i < length hs \<Longrightarrow> number (hs ! Suc i) = number (hs ! i) + 1"
    and no_wrap: "src hs root s \<Longrightarrow> i < length hs \<Longrightarrow> unat (number (hs ! i)) + 1 < 2 ^ 64"
begin

lemma rising_from_number:
  assumes "src hs root s" and "i < length hs"
  shows "fetch_loop oc (by_id s) Rising n (Number (number (hs ! i))) = Inr (take n (drop i hs))"
  using assms(2)
proof (induction n arbitrary: i)
  case 0
  then show ?case by simp
next
  case (Suc n)
  have found: "by_id s (Number (number (hs ! i))) = Some (hs ! i)" using assms(1) Suc.prems by (rule by_number)
  have plus: "checked_plus oc (number (hs ! i)) 1 = Inr (number (hs ! i) + 1)"
    using no_wrap[OF assms(1) Suc.prems] by (simp add: checked_plus_exact)
  have step: "drop i hs = hs ! i # drop (Suc i) hs" using Suc.prems by (rule Cons_nth_drop_Suc[symmetric])
  show ?case
  proof (cases "Suc i < length hs")
    case True
    with Suc.IH[of "Suc i"] numbers[OF assms(1)] found plus step show ?thesis by simp
  next
    case False
    with Suc.prems have "i = length hs - 1" "hs \<noteq> []" by auto
    then have "hs ! i = last hs" "hs \<noteq> []" by (simp_all add: last_conv_nth)
    then have "fetch_loop oc (by_id s) Rising n (Number (number (hs ! i) + 1)) = Inr []"
      by (cases n) (simp_all add: beyond_unknown[OF assms(1)])
    with found plus step False show ?thesis by simp
  qed
qed

lemma rising_walk:
  assumes "src hs root s" and "i < length hs"
  shows "fetch_loop oc (by_id s) Rising n (Hash (hash_of (hs ! i))) = Inr (take n (drop i hs))"
proof -
  have "by_id s (Hash (hash_of (hs ! i))) = by_id s (Number (number (hs ! i)))"
    using assms by (simp add: by_hash by_number)
  then have "fetch_loop oc (by_id s) Rising n (Hash (hash_of (hs ! i)))
      = fetch_loop oc (by_id s) Rising n (Number (number (hs ! i)))"
    by (cases n) simp_all
  with rising_from_number[OF assms] show ?thesis by simp
qed

end

section \<open>The storage is a block source\<close>

definition serves :: "'tx reth \<Rightarrow> Header list \<Rightarrow> B256 \<Rightarrow> 'tx StorageInner \<Rightarrow> bool" where
  "serves R hs root st \<longleftrightarrow>
     (\<exists>init bs. chain_repr R init bs st \<and> hs = map fst bs \<and> root = seal_hash init) \<and>
     unat (best_block st) + 1 < 2 ^ 64"

lemma servesE:
  assumes "serves R hs root st"
  obtains init bs where "chain_repr R init bs st" "hs = map fst bs" "root = seal_hash init"
    "linked (hash_slow R) root (number (header_of init)) bs" "unat (best_block st) + 1 < 2 ^ 64"
    "unat (number (header_of init)) + length bs = unat (best_block st)"
    "best_block st = tip_number (number (header_of init)) bs"
proof -
  obtain init bs where bs: "chain_repr R init bs st" "hs = map fst bs" "root = seal_hash init"
      "unat (best_block st) + 1 < 2 ^ 64"
    using assms unfolding serves_def by blast
  show thesis
    by (rule that[OF bs(1-3) _ bs(4)])
      (use bs(3) chain_repr_best[OF bs(1)] bs(1) in \<open>simp_all add: chain_repr_def\<close>)
qed

interpretation storage_source: block_source "serves R" header_by_hash_or_number "hash_slow R" for R
proof unfold_locales
  fix hs root and s :: "'a StorageInner" and i
  assume src: "serves R hs root s" and i: "i < length hs"
  obtain init bs where bs: "chain_repr R init bs s" "hs = map fst bs" "root = seal_hash init"
    "linked (hash_slow R) root (number (header_of init)) bs" "unat (best_block s) + 1 < 2 ^ 64"
    "unat (number (header_of init)) + length bs = unat (best_block s)"
    using src by (rule servesE)
  show "header_by_hash_or_number s (Hash (hash_slow R (hs ! i))) = Some (hs ! i)"
    using bs i by (simp add: header_by_hash_nth)
  show "header_by_hash_or_number s (Number (number (hs ! i))) = Some (hs ! i)"
    using bs i by (simp add: header_by_number_nth)
  show "parent_hash (hs ! i) = (if i = 0 then root else hash_slow R (hs ! (i - 1)))"
    using bs i linked_nth(2)[OF bs(4)] by simp
  have "number (hs ! i) = number (header_of init) + of_nat (Suc i)"
    using bs i linked_nth(1)[OF bs(4)] by simp
  then show "unat (number (hs ! i)) + 1 < 2 ^ 64"
    using bs i unat_plus_of_nat[of "number (header_of init)" "Suc i"] by simp
next
  fix hs root and s :: "'a StorageInner"
  assume src: "serves R hs root s"
  obtain init bs where bs: "chain_repr R init bs s" "hs = map fst bs" "root = seal_hash init"
    "unat (best_block s) + 1 < 2 ^ 64" "best_block s = tip_number (number (header_of init)) bs"
    using src by (rule servesE)
  show "header_by_hash_or_number s (Hash root) = None"
    using bs by (simp add: header_by_root_hash)
  show "header_by_hash_or_number s (Number (number (last hs) + 1)) = None" if "hs \<noteq> []"
    using bs that header_above_tip[OF bs(1,4)] by (simp add: tip_number_def last_map)
next
  fix hs root and s :: "'a StorageInner" and i
  assume src: "serves R hs root s" and i: "Suc i < length hs"
  obtain init bs where bs: "chain_repr R init bs s" "hs = map fst bs"
      "linked (hash_slow R) root (number (header_of init)) bs"
    using src by (rule servesE)
  show "number (hs ! Suc i) = number (hs ! i) + 1"
    using bs i linked_nth(1)[OF bs(3)] by simp
qed

section \<open>Bodies\<close>

lemma fetch_bodies_takeWhile:
  "fetch_bodies st hashes = map (the \<circ> bodies st) (takeWhile (\<lambda>h. bodies st h \<noteq> None) hashes)"
  by (induction hashes) (auto split: option.splits)

section \<open>Properties of the client\<close>

lemma fetch_headers_from:
  assumes repr: "chain_repr R init bs st" and i: "i < length bs" and ord: "iteration_order order"
    and start: "start req = Hash (hash_slow R (fst (bs ! i))) \<or> start req = Number (number (fst (bs ! i)))"
  shows "fetch_headers oc order st req =
    fetch_loop oc (header_by_hash_or_number st) (direction req) (unat (limit req)) (Hash (hash_slow R (map fst bs ! i)))"
  using start i block_hash_nth[OF repr i ord] by (auto simp: fetch_headers_def)

lemma serves_chain:
  "chain_repr R init bs st \<Longrightarrow> unat (best_block st) + 1 < 2 ^ 64 \<Longrightarrow> serves R (map fst bs) (seal_hash init) st"
  by (auto simp: serves_def)

text \<open>The first block on top of the concrete genesis.\<close>

definition toy_storage :: "nat StorageInner" where
  "toy_storage = snd (insert_new_block True toy_reth (blank_header 5) default_body (Storage_new toy_genesis))"

definition toy_block :: "Header \<times> nat BlockBody" where
  "toy_block = (placed (Storage_new toy_genesis :: nat StorageInner) (blank_header 5), default_body)"

lemma toy_storage_repr:
  "chain_repr toy_reth toy_genesis [toy_block] toy_storage" "unat (best_block toy_storage) + 1 < 2 ^ 64"
proof -
  have run: "insert_new_block True toy_reth (blank_header 5) default_body (Storage_new toy_genesis :: nat StorageInner)
      = (Inr (), toy_storage)"
    by (simp add: toy_storage_def insert_new_block_def checked_plus_def Storage_new_def toy_genesis_def
        blank_header_def Let_def)
  have "chain_repr toy_reth toy_genesis ([] @ [toy_block]) toy_storage"
    unfolding toy_block_def
    by (rule chain_repr_insert[OF toy_repr toy_room _ run])
      (rule separates_fresh[OF toy_separates toy_repr toy_room placed_number])
  then show "chain_repr toy_reth toy_genesis [toy_block] toy_storage" by simp
  from chain_repr_best[OF this] show "unat (best_block toy_storage) + 1 < 2 ^ 64"
    by (simp add: toy_genesis_def blank_header_def)
qed

text \<open>C18: a falling header request that starts at a block inserted by the task, by its hash or by its
  number, answers with that block's header and its ancestors in descending order, as many as asked for,
  and stops above the block that the storage was created with.\<close>

theorem falling_headers:
  assumes repr: "chain_repr R init bs st" and room: "unat (best_block st) + 1 < 2 ^ 64"
    and i: "i < length bs" and ord: "iteration_order order" and dir: "direction req = Falling"
    and start: "start req = Hash (hash_slow R (fst (bs ! i))) \<or> start req = Number (number (fst (bs ! i)))"
  shows "fetch_headers oc order st req = Inr (take (unat (limit req)) (rev (take (Suc i) (map fst bs))))"
  using storage_source.falling_walk[OF serves_chain[OF repr room], of i] i dir
  by (simp add: fetch_headers_from[OF repr i ord start])

theorem falling_headers_witness:
  "fetch_headers True id toy_storage \<lparr>start = Number 1, limit = 10, direction = Falling\<rparr> = Inr [fst toy_block]"
proof -
  have "number (fst toy_block) = 1"
    by (simp add: toy_block_def placed_def Storage_new_def toy_genesis_def blank_header_def)
  then show ?thesis
    using falling_headers[OF toy_storage_repr, of 0 id "\<lparr>start = Number 1, limit = 10, direction = Falling\<rparr>" True]
    by simp
qed

text \<open>C19: a rising header request that starts at an inserted block answers with that block's header and
  its descendants in ascending order, as many as asked for, up to the tip.\<close>

theorem rising_headers:
  assumes repr: "chain_repr R init bs st" and room: "unat (best_block st) + 1 < 2 ^ 64"
    and i: "i < length bs" and ord: "iteration_order order" and dir: "direction req = Rising"
    and start: "start req = Hash (hash_slow R (fst (bs ! i))) \<or> start req = Number (number (fst (bs ! i)))"
  shows "fetch_headers oc order st req = Inr (take (unat (limit req)) (drop i (map fst bs)))"
  using storage_source.rising_walk[OF serves_chain[OF repr room], of i] i dir
  by (simp add: fetch_headers_from[OF repr i ord start])

theorem rising_headers_witness:
  "fetch_headers True rev toy_storage \<lparr>start = Hash 1, limit = 10, direction = Rising\<rparr> = Inr [fst toy_block]"
proof -
  have "hash_slow (toy_reth :: nat reth) (fst toy_block) = 1"
    by (simp add: toy_reth_def toy_block_def placed_def Storage_new_def toy_genesis_def blank_header_def)
  then show ?thesis
    using rising_headers[OF toy_storage_repr, of 0 rev "\<lparr>start = Hash 1, limit = 10, direction = Rising\<rparr>" True]
    by simp
qed

text \<open>C20: insert and fetch round trip: asked for the hashes of inserted blocks, in any order and with
  repetitions, the client answers with exactly their bodies in the same order; it stops at the first hash
  that it does not know and ignores the rest of the request.\<close>

theorem bodies_round_trip:
  assumes repr: "chain_repr R init bs st" and ids: "\<forall>i\<in>set is. i < length bs"
    and unknown: "bodies st u = None"
  shows "fetch_bodies st (map (\<lambda>i. hash_slow R (fst (bs ! i))) is) = map (\<lambda>i. snd (bs ! i)) is \<and>
    fetch_bodies st (map (\<lambda>i. hash_slow R (fst (bs ! i))) is @ u # rest) = map (\<lambda>i. snd (bs ! i)) is"
  using ids unknown by (induction "is") (auto simp: bodies_nth[OF repr])

theorem bodies_round_trip_witness: "fetch_bodies toy_storage [1, 1, 7, 1] = [snd toy_block, snd toy_block]"
proof -
  have hash: "hash_slow (toy_reth :: nat reth) (fst toy_block) = 1"
    by (simp add: toy_reth_def toy_block_def placed_def Storage_new_def toy_genesis_def blank_header_def)
  have "bodies toy_storage = map_of (body_entries (hash_slow (toy_reth :: nat reth)) toy_genesis [toy_block])"
    using toy_storage_repr(1) by (simp add: chain_repr_def)
  then have "bodies toy_storage 7 = None" by (simp add: body_entries_def hash toy_genesis_def)
  then show ?thesis
    using bodies_round_trip[OF toy_storage_repr(1), of "[0, 0]" 7 "[1]"] hash by simp
qed

text \<open>C36: the block the storage was created with has a header and a body there, but the client cannot
  serve its header: its hash is never entered into \<open>hash_to_number\<close>, so a request that starts at it, by
  hash or by number, is answered with no headers at all.\<close>

theorem initial_block_not_served:
  assumes repr: "chain_repr R init bs st" and ord: "iteration_order order"
    and start: "start req = Hash (seal_hash init) \<or> start req = Number (number (header_of init))"
  shows "fetch_headers oc order st req = Inr [] \<and> headers st (number (header_of init)) = Some (header_of init) \<and>
    fetch_bodies st [seal_hash init] = [default_body]"
proof -
  have "fetch_loop oc (header_by_hash_or_number st) dir n (Hash (seal_hash init)) = Inr []" for dir n
    by (cases n) (simp_all add: header_by_root_hash[OF repr])
  then have "fetch_headers oc order st req = Inr []"
    using start block_hash_root[OF repr ord] by (auto simp: fetch_headers_def)
  moreover have "headers st (number (header_of init)) = Some (header_of init)"
    using repr by (simp add: chain_repr_def header_entries_def)
  moreover have "bodies st (seal_hash init) = Some default_body"
    using repr by (simp add: chain_repr_def body_entries_def)
  ultimately show ?thesis by simp
qed

theorem initial_block_not_served_witness:
  "fetch_headers True id toy_storage \<lparr>start = Number 0, limit = 10, direction = Rising\<rparr> = Inr []"
  using initial_block_not_served[OF toy_storage_repr(1), of id "\<lparr>start = Number 0, limit = 10, direction = Rising\<rparr>" True]
  by (simp add: toy_genesis_def blank_header_def)

text \<open>C35: lookups by number are indexing into the chain. The scan of \<open>block_hash\<close> over the hash table, in whatever
  order the table is iterated, gives the hash of the block at the position that belongs to the number, and none
  for the number of the initial block and for numbers above the tip. For every number but that of the initial
  block, looking up the header by number gives the header at that position, and so does asking for the header
  by the hash that the scan found.\<close>

theorem number_lookup_is_index:
  assumes "chain_repr R init bs st" and "iteration_order order"
  shows "block_hash order st n = map_option (\<lambda>b. hash_slow R (fst b)) (chain_index init bs n) \<and>
    block_hash order st (number (header_of init)) = None \<and>
    (n \<noteq> number (header_of init) \<longrightarrow>
       header_by_hash_or_number st (Number n) = map_option fst (chain_index init bs n) \<and>
       header_by_hash_or_number st (Number n)
         = Option.bind (block_hash order st n) (\<lambda>h. header_by_hash_or_number st (Hash h)))"
proof -
  have "Option.bind (block_hash order st n) (\<lambda>h. header_by_hash_or_number st (Hash h)) = map_option fst (chain_index init bs n)"
  proof (cases "chain_index init bs n")
    case (Some b)
    then obtain i where "i < length bs" "bs ! i = b" unfolding chain_index_Some[OF assms(1)] by blast
    with Some header_by_hash_nth[OF assms(1), of i] show ?thesis by (simp add: block_hash_index[OF assms])
  qed (simp add: block_hash_index[OF assms])
  moreover have "block_hash order st (number (header_of init)) = None"
    by (simp add: block_hash_index[OF assms] chain_index_def)
  ultimately show ?thesis using block_hash_index[OF assms] header_by_number_index[OF assms(1)] by simp
qed

theorem number_lookup_is_index_witness:
  "block_hash rev toy_storage 1 = Some (hash_slow (toy_reth :: nat reth) (fst toy_block)) \<and>
   header_by_hash_or_number toy_storage (Number 1) = Some (fst toy_block) \<and> block_hash rev toy_storage 7 = None"
proof -
  have "1 \<noteq> number (header_of toy_genesis)" "7 \<noteq> number (header_of toy_genesis)"
    "chain_index toy_genesis [toy_block] 1 = Some toy_block" "chain_index toy_genesis [toy_block] 7 = None"
    by (simp_all add: chain_index_def toy_genesis_def blank_header_def)
  then show ?thesis
    using number_lookup_is_index[OF toy_storage_repr(1), of rev 1] number_lookup_is_index[OF toy_storage_repr(1), of rev 7]
    by simp
qed

end
