(* ===== verification/Mining_Task.thy ===== *)
theory Mining_Task
  imports Chain_Storage Channels "HOL-Library.Sublist"
begin

text \<open>
  \<open>chain/task.rs\<close>: the future that turns the blocks relayed by the consumer into executed blocks.

  \<open>task_sys\<close> is the task with the storage it shares with the client and the receiving end of its
  channel. The insert future is the state machine the compiler makes of the \<open>async\<close> block: it
  waits for the storage's write lock, or, after the block was built, for the engine's answer to a
  forkchoice update. What the environment answers at those two waits are the lists \<open>lock_polls\<close>
  and \<open>fcu_polls\<close>, one element per poll; an exhausted list is a wait that goes on. The calls to
  the pool, the engine and the chain tracker, which belong to reth, are recorded in \<open>log\<close> in the
  order they are made.

  One call of \<open>poll\<close> sees the channel as it is when the call starts; blocks that arrive during the
  call, or that tokio's cooperative scheduling holds back, are seen by the next one.
\<close>

section \<open>Data\<close>

text \<open>A pipeline event stream is an opaque handle.\<close>

type_synonym event_stream = nat

datatype ForkchoiceStatus = FcuValid | FcuInvalid | FcuSyncing

record ForkchoiceState =
  head_block_hash :: B256
  finalized_block_hash :: B256
  safe_block_hash :: B256

datatype task_event =
    RemoveTransactions "B256 list"
  | ForkchoiceUpdated ForkchoiceState
  | SetCanonicalHead SealedHeader
  | SetSafe SealedHeader
  | SetFinalized SealedHeader

datatype 'db lock_poll = LockBusy | LockAcquired "'db build_env"

text \<open>
  The engine's answer: not yet, a status, an error, or the sender of the answer was dropped (also
  when the update could not be sent at all).
\<close>

datatype fcu_poll = RxPending | RxReply ForkchoiceStatus | RxError | RxDropped

datatype 'tx insert_fut =
    AwaitLock "'tx list" "event_stream option"
  | AwaitFcu SealedHeader "event_stream option"

datatype 'tx fut_poll = FutReady "event_stream option" | FutPending "'tx insert_fut"

record ('tx, 'db) task_sys =
  insert_task :: "'tx insert_fut option"
  queued :: "'tx list list"
  pipe_line_events :: "event_stream option"
  chain_rx :: "'tx list channel"
  storage :: "'tx StorageInner"
  log :: "task_event list"
  lock_polls :: "'db lock_poll list"
  fcu_polls :: "fcu_poll list"

section \<open>Operations\<close>

definition MalachiteTask_new :: "'tx StorageInner \<Rightarrow> 'tx list channel \<Rightarrow> ('tx, 'db) task_sys" where
  "MalachiteTask_new st rx =
     \<lparr>insert_task = None, queued = [], pipe_line_events = None, chain_rx = rx, storage = st,
      log = [], lock_polls = [], fcu_polls = []\<rparr>"

definition set_pipeline_events :: "event_stream \<Rightarrow> ('tx, 'db) task_sys \<Rightarrow> ('tx, 'db) task_sys" where
  "set_pipeline_events events s = s\<lparr>pipe_line_events := Some events\<rparr>"

definition forkchoice_state :: "SealedHeader \<Rightarrow> ForkchoiceState" where
  "forkchoice_state h =
     \<lparr>head_block_hash = seal_hash h, finalized_block_hash = seal_hash h, safe_block_hash = seal_hash h\<rparr>"

text \<open>The loop around \<open>rx.await\<close>: \<open>SYNCING\<close> sends the update again.\<close>

fun fcu_wait ::
  "SealedHeader \<Rightarrow> event_stream option \<Rightarrow> fcu_poll list \<Rightarrow> task_event list
     \<Rightarrow> (panic + 'tx fut_poll) \<times> fcu_poll list \<times> task_event list" where
  "fcu_wait h ev [] lg = (Inr (FutPending (AwaitFcu h ev)), [], lg)"
| "fcu_wait h ev (RxPending # rs) lg = (Inr (FutPending (AwaitFcu h ev)), rs, lg)"
| "fcu_wait h ev (RxReply FcuValid # rs) lg =
     (Inr (FutReady ev), rs, lg @ [SetCanonicalHead h, SetSafe h, SetFinalized h])"
| "fcu_wait h ev (RxReply FcuInvalid # rs) lg = (Inr (FutReady None), rs, lg)"
| "fcu_wait h ev (RxReply FcuSyncing # rs) lg =
     fcu_wait h ev rs (lg @ [ForkchoiceUpdated (forkchoice_state h)])"
| "fcu_wait h ev (RxError # rs) lg = (Inr (FutReady None), rs, lg)"
| "fcu_wait h ev (RxDropped # rs) lg = (Inl UnwrapErr, rs, lg)"

definition await_fcu ::
  "SealedHeader \<Rightarrow> event_stream option \<Rightarrow> (('tx, 'db) task_sys, 'tx fut_poll) act" where
  "await_fcu h ev s =
     (case fcu_wait h ev (fcu_polls s) (log s) of (r, rs, lg) \<Rightarrow> (r, s\<lparr>fcu_polls := rs, log := lg\<rparr>))"

text \<open>One poll of the insert future.\<close>

definition poll_insert ::
  "bool \<Rightarrow> 'tx reth \<Rightarrow> ('tx, 'db, 'st, 'r) executor \<Rightarrow> ChainSpec \<Rightarrow> 'tx insert_fut
     \<Rightarrow> (('tx, 'db) task_sys, 'tx fut_poll) act" where
  "poll_insert oc R X spec fut s =
     (case fut of
        AwaitFcu h ev \<Rightarrow> await_fcu h ev s
      | AwaitLock txs ev \<Rightarrow>
          (case lock_polls s of
             [] \<Rightarrow> (Inr (FutPending fut), s)
           | LockBusy # ls \<Rightarrow> (Inr (FutPending fut), s\<lparr>lock_polls := ls\<rparr>)
           | LockAcquired env # ls \<Rightarrow>
               (let s = s\<lparr>lock_polls := ls\<rparr> in
                case build_and_execute oc R X spec env txs [] (storage s) of
                  (Inl p, st) \<Rightarrow> (Inl p, s\<lparr>storage := st\<rparr>)
                | (Inr (Inl err), st) \<Rightarrow> (Inr (FutReady ev), s\<lparr>storage := st\<rparr>)
                | (Inr (Inr (new_header, _)), st) \<Rightarrow>
                    await_fcu new_header ev
                      (s\<lparr>storage := st,
                         log := log s @ [RemoveTransactions (map (tx_hash R) txs),
                                         ForkchoiceUpdated (forkchoice_state new_header)]\<rparr>))))"

text \<open>The head of the loop: take a block from the channel if there is one.\<close>

definition task_receive :: "('tx, 'db) task_sys \<Rightarrow> panic + ('tx, 'db) task_sys" where
  "task_receive s =
     (case chan_recv (chain_rx s) of
        (Item v, ch) \<Rightarrow> Inr (s\<lparr>chain_rx := ch, queued := push_back v (queued s)\<rparr>)
      | (Empty, ch) \<Rightarrow> Inr s
      | (Disconnected, ch) \<Rightarrow> Inl UnwrapNone)"

text \<open>Take the running future, or make one for the oldest queued block; \<open>None\<close> leaves the loop.\<close>

definition task_take :: "('tx, 'db) task_sys \<Rightarrow> ('tx insert_fut \<times> ('tx, 'db) task_sys) option" where
  "task_take s =
     (case insert_task s of
        Some fut \<Rightarrow> Some (fut, s\<lparr>insert_task := None\<rparr>)
      | None \<Rightarrow>
          (case pop_front (queued s) of
             None \<Rightarrow> None
           | Some (txs, q) \<Rightarrow>
               Some (AwaitLock txs (pipe_line_events s), s\<lparr>queued := q, pipe_line_events := None\<rparr>)))"

text \<open>\<open>backlog\<close> counts the blocks that are not finished; every round of the loop finishes one.\<close>

definition backlog :: "('tx, 'db) task_sys \<Rightarrow> nat" where
  "backlog s = length (items (chain_rx s)) + length (queued s) + (if insert_task s = None then 0 else 1)"

lemma task_receive_backlog: "task_receive s = Inr s1 \<Longrightarrow> backlog s1 = backlog s"
  by (rule chan_recv_cases[of "chain_rx s"]) (auto simp: task_receive_def backlog_def push_back_def)

lemma task_take_backlog: "task_take s = Some (fut, s1) \<Longrightarrow> insert_task s1 = None \<and> backlog s1 < backlog s"
  by (auto simp: task_take_def backlog_def split: option.splits dest!: vec_deque.get_Some)

lemma await_fcu_frame:
  "await_fcu h ev s = (r, s') \<Longrightarrow>
     insert_task s' = insert_task s \<and> queued s' = queued s \<and> chain_rx s' = chain_rx s \<and>
     pipe_line_events s' = pipe_line_events s \<and> storage s' = storage s \<and> lock_polls s' = lock_polls s"
  by (auto simp: await_fcu_def split: prod.splits)

lemma poll_insert_frame:
  assumes "poll_insert oc R X spec fut s = (r, s')"
  shows "insert_task s' = insert_task s \<and> queued s' = queued s \<and> chain_rx s' = chain_rx s \<and>
     pipe_line_events s' = pipe_line_events s"
  using assms unfolding poll_insert_def Let_def
  by (auto split: insert_fut.splits list.splits lock_poll.splits sum.splits prod.splits
      dest!: await_fcu_frame)

function task_poll ::
  "bool \<Rightarrow> 'tx reth \<Rightarrow> ('tx, 'db, 'st, 'r) executor \<Rightarrow> ChainSpec \<Rightarrow> (('tx, 'db) task_sys, unit) act" where
  "task_poll oc R X spec s =
     (case task_receive s of
        Inl p \<Rightarrow> (Inl p, s)
      | Inr s1 \<Rightarrow>
          (case task_take s1 of
             None \<Rightarrow> (Inr (), s1)
           | Some (fut, s2) \<Rightarrow>
               (case poll_insert oc R X spec fut s2 of
                  (Inl p, s3) \<Rightarrow> (Inl p, s3)
                | (Inr (FutReady events), s3) \<Rightarrow> task_poll oc R X spec (s3\<lparr>pipe_line_events := events\<rparr>)
                | (Inr (FutPending fut'), s3) \<Rightarrow> (Inr (), s3\<lparr>insert_task := Some fut'\<rparr>))))"
  by pat_completeness auto
termination
proof (relation "measure (\<lambda>(oc, R, X, spec, s). backlog s)", goal_cases)
  case (2 oc R X spec s s1 p fut s2 r s3 v events)
  have "backlog s2 < backlog s1" using task_take_backlog[of s1 fut s2] 2(2,3) by simp
  moreover have "backlog (s3\<lparr>pipe_line_events := events\<rparr>) = backlog s2"
    using poll_insert_frame[OF 2(4)[symmetric]] by (simp add: backlog_def)
  ultimately show ?case using task_receive_backlog[OF 2(1)] by simp
qed simp

declare task_poll.simps [simp del]

text \<open>
  The rounds of a poll: a property that every completed round keeps holds at the start of the last
  round, which ends the poll in one of four ways.
\<close>

lemma task_poll_rounds [consumes 2, case_names round closed idle panics pending]:
  assumes "task_poll oc R X spec s = (r, s')" and "P s"
    and "\<And>s s1 fut s2 ev s3. P s \<Longrightarrow> task_receive s = Inr s1 \<Longrightarrow> task_take s1 = Some (fut, s2) \<Longrightarrow>
      poll_insert oc R X spec fut s2 = (Inr (FutReady ev), s3) \<Longrightarrow> P (s3\<lparr>pipe_line_events := ev\<rparr>)"
    and "\<And>e. P s' \<Longrightarrow> task_receive s' = Inl e \<Longrightarrow> r = Inl e \<Longrightarrow> thesis"
    and "\<And>s0. P s0 \<Longrightarrow> task_receive s0 = Inr s' \<Longrightarrow> task_take s' = None \<Longrightarrow> r = Inr () \<Longrightarrow> thesis"
    and "\<And>s0 s1 fut s2 e. P s0 \<Longrightarrow> task_receive s0 = Inr s1 \<Longrightarrow> task_take s1 = Some (fut, s2) \<Longrightarrow>
      poll_insert oc R X spec fut s2 = (Inl e, s') \<Longrightarrow> r = Inl e \<Longrightarrow> thesis"
    and "\<And>s0 s1 fut s2 fut' s3. P s0 \<Longrightarrow> task_receive s0 = Inr s1 \<Longrightarrow> task_take s1 = Some (fut, s2) \<Longrightarrow>
      poll_insert oc R X spec fut s2 = (Inr (FutPending fut'), s3) \<Longrightarrow> s' = s3\<lparr>insert_task := Some fut'\<rparr> \<Longrightarrow>
      r = Inr () \<Longrightarrow> thesis"
  shows thesis
  using assms(1,2)
proof (induction "backlog s" arbitrary: s rule: less_induct)
  case less
  note run = less.prems(1)[unfolded task_poll.simps[of oc R X spec s]]
  show ?case
  proof (cases "\<exists>s1 fut s2 ev s3. task_receive s = Inr s1 \<and> task_take s1 = Some (fut, s2) \<and>
      poll_insert oc R X spec fut s2 = (Inr (FutReady ev), s3)")
    case True
    then obtain s1 fut s2 ev s3 where recv: "task_receive s = Inr s1" and take: "task_take s1 = Some (fut, s2)"
      and poll: "poll_insert oc R X spec fut s2 = (Inr (FutReady ev), s3)" by blast
    have "backlog (s3\<lparr>pipe_line_events := ev\<rparr>) < backlog s"
      using task_receive_backlog[OF recv] task_take_backlog[OF take] poll_insert_frame[OF poll]
      by (simp add: backlog_def)
    moreover have "task_poll oc R X spec (s3\<lparr>pipe_line_events := ev\<rparr>) = (r, s')"
      using run recv take poll by simp
    ultimately show ?thesis using less.hyps assms(3)[OF less.prems(2) recv take poll] by blast
  next
    case False
    then show ?thesis
      using run less.prems(2) assms(4-7)
      by (auto split: sum.splits option.splits prod.splits fut_poll.splits)
  qed
qed

section \<open>What the task keeps\<close>

text \<open>
  The work the task still has: the block of a future that waits for the lock, the queue, and what
  waits in the channel, oldest first.
\<close>

primrec fut_work :: "'tx insert_fut \<Rightarrow> 'tx list list" where
  "fut_work (AwaitLock txs ev) = [txs]"
| "fut_work (AwaitFcu h ev) = []"

definition work :: "('tx, 'db) task_sys \<Rightarrow> 'tx list list" where
  "work s = (case insert_task s of None \<Rightarrow> [] | Some fut \<Rightarrow> fut_work fut) @ queued s @ items (chain_rx s)"

text \<open>The sealed headers of the blocks of a chain, and the headers that an event names.\<close>

definition sealed_blocks :: "'tx reth \<Rightarrow> 'tx blocks \<Rightarrow> SealedHeader set" where
  "sealed_blocks R bs = (\<lambda>hb. \<lparr>header_of = fst hb, seal_hash = hash_slow R (fst hb)\<rparr>) ` set bs"

fun event_ok :: "SealedHeader set \<Rightarrow> task_event \<Rightarrow> bool" where
  "event_ok S (RemoveTransactions hs) \<longleftrightarrow> True"
| "event_ok S (ForkchoiceUpdated f) \<longleftrightarrow> f \<in> forkchoice_state ` S"
| "event_ok S (SetCanonicalHead h) \<longleftrightarrow> h \<in> S"
| "event_ok S (SetSafe h) \<longleftrightarrow> h \<in> S"
| "event_ok S (SetFinalized h) \<longleftrightarrow> h \<in> S"

primrec fut_ok :: "SealedHeader set \<Rightarrow> 'tx insert_fut \<Rightarrow> bool" where
  "fut_ok S (AwaitLock txs ev) \<longleftrightarrow> True"
| "fut_ok S (AwaitFcu h ev) \<longleftrightarrow> h \<in> S"

text \<open>
  \<open>task_inv R init bs s\<close>: the storage holds the chain \<open>bs\<close>, everything that was announced to the
  engine or is about to be is a block of it, and there are block numbers for the work that is left.
\<close>

definition task_inv :: "'tx reth \<Rightarrow> SealedHeader \<Rightarrow> 'tx blocks \<Rightarrow> ('tx, 'db) task_sys \<Rightarrow> bool" where
  "task_inv R init bs s \<longleftrightarrow>
     chain_repr R init bs (storage s) \<and>
     list_all (event_ok (sealed_blocks R bs)) (log s) \<and>
     pred_option (fut_ok (sealed_blocks R bs)) (insert_task s) \<and>
     unat (best_block (storage s)) + length (work s) < 2 ^ 64"

lemma event_ok_mono: "event_ok S e \<Longrightarrow> S \<subseteq> T \<Longrightarrow> event_ok T e"
  by (cases e) auto

lemma sealed_blocks_mono: "sealed_blocks R bs \<subseteq> sealed_blocks R (bs @ new)"
  by (auto simp: sealed_blocks_def)

lemma log_ok_append: "list_all (event_ok (sealed_blocks R bs)) es \<Longrightarrow> list_all (event_ok (sealed_blocks R (bs @ new))) es"
  by (auto simp: list_all_iff intro: event_ok_mono[OF _ sealed_blocks_mono])

section \<open>Waiting for the engine\<close>

text \<open>Everything that the wait for \<open>h\<close> announces names \<open>h\<close>.\<close>

lemma fcu_wait_inv:
  assumes "fcu_wait h ev rs lg = (r, rs', lg')" and "list_all (event_ok S) lg" and "h \<in> S"
  shows "list_all (event_ok S) lg' \<and> (\<forall>f. r = Inr (FutPending f) \<longrightarrow> f = AwaitFcu h ev)"
  using assms by (induction h ev rs lg rule: fcu_wait.induct) auto

lemma await_fcu_inv:
  assumes "await_fcu h ev s = (r, s')" and "list_all (event_ok S) (log s)" and "h \<in> S"
  shows "list_all (event_ok S) (log s') \<and> (\<forall>f. r = Inr (FutPending f) \<longrightarrow> f = AwaitFcu h ev)"
  using assms fcu_wait_inv[of h ev "fcu_polls s" "log s" r _ _ S]
  by (auto simp: await_fcu_def split: prod.splits)

lemma fcu_wait_syncing:
  "fcu_wait h ev (replicate k (RxReply FcuSyncing) @ rs) lg =
     fcu_wait h ev rs (lg @ replicate k (ForkchoiceUpdated (forkchoice_state h)))"
  by (induction k arbitrary: lg) simp_all

section \<open>One poll of the insert future\<close>

lemma build_separated:
  assumes repr: "chain_repr R init bs st" and room: "unat (best_block st) + 1 < 2 ^ 64"
    and sep: "hash_separates R init"
    and run: "build_and_execute oc R X spec env txs ommers st = (Inr (Inr (sh, outcome)), st')"
  obtains body where "body_transactions body = txs" "chain_repr R init (bs @ [(header_of sh, body)]) st'"
    "sh \<in> sealed_blocks R (bs @ [(header_of sh, body)])"
proof -
  obtain b where b: "placed st (header_of sh) = header_of sh" "seal_hash sh = hash_slow R (header_of sh)"
    using run by (rule build_succeeded)
  then have "number (header_of sh) = best_block st + 1" by (metis placed_number)
  then have "bodies st (seal_hash sh) = None" using separates_fresh[OF sep repr room] b by simp
  then obtain body where body: "body_transactions body = txs" "chain_repr R init (bs @ [(header_of sh, body)]) st'"
    using build_extends_chain[OF repr room run] by metis
  moreover have "sh \<in> sealed_blocks R (bs @ [(header_of sh, body)])"
    using b by (auto simp: sealed_blocks_def)
  ultimately show thesis by (rule that)
qed

text \<open>
  What one poll does: it may finish the block the future waits to build (\<open>k = 1\<close>), whether or not
  the build succeeds, and it never announces a block that is not stored.
\<close>

primrec poll_work :: "panic + 'tx fut_poll \<Rightarrow> 'tx list list" where
  "poll_work (Inl p) = []"
| "poll_work (Inr q) = (case q of FutReady ev \<Rightarrow> [] | FutPending fut \<Rightarrow> fut_work fut)"

definition poll_ok :: "SealedHeader set \<Rightarrow> panic + 'tx fut_poll \<Rightarrow> bool" where
  "poll_ok S r \<longleftrightarrow> (\<forall>fut. r = Inr (FutPending fut) \<longrightarrow> fut_ok S fut)"

definition blocks_txs :: "'tx blocks \<Rightarrow> 'tx list list" where
  "blocks_txs bs = map (body_transactions \<circ> snd) bs"

lemma await_fcu_poll:
  assumes run: "await_fcu h ev s = (r, s')"
    and inv: "chain_repr R init bs (storage s)" "list_all (event_ok (sealed_blocks R bs)) (log s)"
    and h: "h \<in> sealed_blocks R bs"
  shows "chain_repr R init bs (storage s') \<and> list_all (event_ok (sealed_blocks R bs)) (log s') \<and>
    poll_ok (sealed_blocks R bs) r \<and> poll_work r = []"
proof -
  have "\<forall>f. r = Inr (FutPending f) \<longrightarrow> f = AwaitFcu h ev" "list_all (event_ok (sealed_blocks R bs)) (log s')"
    using await_fcu_inv[OF run inv(2) h] by auto
  moreover from this(1) have "poll_work r = []" "poll_ok (sealed_blocks R bs) r"
    using h by (cases r; auto simp: poll_ok_def split: fut_poll.splits)+
  ultimately show ?thesis using await_fcu_frame[OF run] inv(1) by simp
qed

lemma poll_insert_step:
  assumes run: "poll_insert oc R X spec fut s = (r, s')"
    and inv: "chain_repr R init bs (storage s)" "list_all (event_ok (sealed_blocks R bs)) (log s)"
    and fut: "fut_ok (sealed_blocks R bs) fut"
    and room: "unat (best_block (storage s)) + length (fut_work fut) < 2 ^ 64"
    and sep: "hash_separates R init"
  obtains new k where "chain_repr R init (bs @ new) (storage s')"
    "list_all (event_ok (sealed_blocks R (bs @ new))) (log s')" "poll_ok (sealed_blocks R (bs @ new)) r"
    "poll_work r = drop k (fut_work fut)" "subseq (blocks_txs new) (take k (fut_work fut))"
proof (cases fut)
  case (AwaitFcu h ev)
  with run fut have "await_fcu h ev s = (r, s')" "h \<in> sealed_blocks R bs" by (auto simp: poll_insert_def)
  from await_fcu_poll[OF this(1) inv this(2)] show thesis
    using AwaitFcu by (intro that[of "[]" 0]) (auto simp: blocks_txs_def)
next
  case fut': (AwaitLock txs ev)
  show thesis
  proof (cases "\<exists>env ls. lock_polls s = LockAcquired env # ls")
    case False
    then have "r = Inr (FutPending fut)" "storage s' = storage s" "log s' = log s"
      using run fut' by (auto simp: poll_insert_def split: list.splits lock_poll.splits)
    then show thesis using inv fut by (intro that[of "[]" 0]) (auto simp: poll_ok_def blocks_txs_def)
  next
    case True
    then obtain env ls where lock: "lock_polls s = LockAcquired env # ls" by blast
    obtain q st where build: "build_and_execute oc R X spec env txs [] (storage s) = (q, st)" by fastforce
    show thesis
    proof (cases "\<exists>sh outcome. q = Inr (Inr (sh, outcome))")
      case False
      then have "\<And>v. q \<noteq> Inr (Inr v)" by auto
      then have same: "st = storage s" by (rule build_failed_unchanged[OF build])
      have "poll_work r = []" "poll_ok (sealed_blocks R bs) r" "storage s' = st" "log s' = log s"
        using run fut' lock build False by (auto simp: poll_insert_def poll_ok_def Let_def split: sum.splits)
      then show thesis using inv same fut' by (intro that[of "[]" 1]) (auto simp: blocks_txs_def)
    next
      case True
      then obtain sh outcome where q: "q = Inr (Inr (sh, outcome))" by blast
      have "unat (best_block (storage s)) + 1 < 2 ^ 64" using room fut' by simp
      then obtain body where body: "body_transactions body = txs"
          "chain_repr R init (bs @ [(header_of sh, body)]) st"
          "sh \<in> sealed_blocks R (bs @ [(header_of sh, body)])"
        using build_separated[OF inv(1) _ sep] build q by metis
      let ?new = "[(header_of sh, body)]"
      let ?s = "s\<lparr>lock_polls := ls, storage := st,
          log := log s @ [RemoveTransactions (map (tx_hash R) txs), ForkchoiceUpdated (forkchoice_state sh)]\<rparr>"
      have wait: "await_fcu sh ev ?s = (r, s')"
        using run fut' lock build q by (simp add: poll_insert_def Let_def)
      have "chain_repr R init (bs @ ?new) (storage ?s)"
        "list_all (event_ok (sealed_blocks R (bs @ ?new))) (log ?s)"
        using body log_ok_append[OF inv(2), of ?new] by auto
      from await_fcu_poll[OF wait this body(3)] show thesis
        using fut' body(1) by (intro that[of ?new 1]) (auto simp: blocks_txs_def)
    qed
  qed
qed

section \<open>The poll loop\<close>

lemma task_receive_frame:
  "task_receive s = Inr s1 \<Longrightarrow> work s1 = work s \<and> storage s1 = storage s \<and> log s1 = log s \<and> insert_task s1 = insert_task s \<and>
    lock_polls s1 = lock_polls s \<and> fcu_polls s1 = fcu_polls s \<and> pipe_line_events s1 = pipe_line_events s"
  by (rule chan_recv_cases[of "chain_rx s"]) (auto simp: task_receive_def work_def push_back_def)

lemma task_receive_queue: "task_receive s = Inr s1 \<Longrightarrow> queued s1 = [] \<Longrightarrow> items (chain_rx s1) = []"
  by (rule chan_recv_cases[of "chain_rx s"]) (auto simp: task_receive_def push_back_def)

lemma task_receive_alive:
  "tx_alive (chain_rx s) \<Longrightarrow> \<exists>s1. task_receive s = Inr s1 \<and> tx_alive (chain_rx s1)"
  by (rule chan_recv_cases[of "chain_rx s"]) (auto simp: task_receive_def)

lemma task_take_frame:
  assumes "task_take s = Some (fut, s1)"
  shows "work s = fut_work fut @ work s1 \<and> insert_task s1 = None \<and> storage s1 = storage s \<and> log s1 = log s \<and>
    lock_polls s1 = lock_polls s \<and> fcu_polls s1 = fcu_polls s \<and>
    (insert_task s = Some fut \<or> insert_task s = None \<and> (\<exists>txs ev. fut = AwaitLock txs ev))"
  using assms
  by (auto simp: task_take_def work_def split: option.splits dest!: vec_deque.get_Some)

lemma task_take_None: "task_take s = None \<longleftrightarrow> insert_task s = None \<and> queued s = []"
  by (auto simp: task_take_def vec_deque.get_None split: option.splits dest: vec_deque.get_Some)

lemma work_updates [simp]:
  "work (s\<lparr>pipe_line_events := ev\<rparr>) = work s"
  by (simp add: work_def)

lemma task_inv_events [simp]: "task_inv R init bs (s\<lparr>pipe_line_events := ev\<rparr>) = task_inv R init bs s"
  by (simp add: task_inv_def)

text \<open>The future is the only thing in one round of the loop that adds blocks.\<close>

lemma task_round:
  assumes inv: "task_inv R init bs s" and sep: "hash_separates R init"
    and recv: "task_receive s = Inr s1" and take: "task_take s1 = Some (fut, s2)"
    and run: "poll_insert oc R X spec fut s2 = (r, s3)"
  obtains new k where "k \<le> length (fut_work fut)" "work s = fut_work fut @ work s3" "insert_task s3 = None"
    "task_inv R init (bs @ new) s3" "list_all (event_ok (sealed_blocks R (bs @ new))) (log s3)"
    "poll_ok (sealed_blocks R (bs @ new)) r"
    "poll_work r = drop k (fut_work fut)" "subseq (blocks_txs new) (take k (fut_work fut))"
    "unat (best_block (storage s3)) + length (poll_work r) + length (work s3) < 2 ^ 64"
proof -
  note fr = task_receive_frame[OF recv] task_take_frame[OF take] poll_insert_frame[OF run]
  have work: "work s = fut_work fut @ work s3" and none: "insert_task s3 = None"
    using fr by (auto simp: work_def)
  have repr: "chain_repr R init bs (storage s2)" and lg: "list_all (event_ok (sealed_blocks R bs)) (log s2)"
    using inv fr by (simp_all add: task_inv_def)
  have fut: "fut_ok (sealed_blocks R bs) fut" using inv fr by (auto simp: task_inv_def)
  have room: "unat (best_block (storage s2)) + length (fut_work fut) + length (work s3) < 2 ^ 64"
    using inv fr work by (simp add: task_inv_def)
  have "unat (best_block (storage s2)) + length (fut_work fut) < 2 ^ 64" using room by linarith
  then obtain new k where new: "chain_repr R init (bs @ new) (storage s3)"
    "list_all (event_ok (sealed_blocks R (bs @ new))) (log s3)" "poll_ok (sealed_blocks R (bs @ new)) r"
    "poll_work r = drop k (fut_work fut)" "subseq (blocks_txs new) (take k (fut_work fut))"
    using poll_insert_step[OF run repr lg fut _ sep] by metis
  have "length new \<le> length (take k (fut_work fut))"
    using list_emb_length[OF new(5)] by (simp add: blocks_txs_def)
  moreover have "unat (best_block (storage s3)) = unat (best_block (storage s2)) + length new"
    using chain_repr_best[OF new(1)] chain_repr_best[OF repr] by simp
  ultimately have left: "unat (best_block (storage s3)) + length (poll_work r) + length (work s3) < 2 ^ 64"
    using room new(4) by (simp add: min_def split: if_splits)
  moreover from this have "task_inv R init (bs @ new) s3" using new none by (simp add: task_inv_def)
  moreover have "\<exists>k \<le> length (fut_work fut). poll_work r = drop k (fut_work fut) \<and>
      subseq (blocks_txs new) (take k (fut_work fut))"
    using new(4,5) by (intro exI[of _ "min k (length (fut_work fut))"]) (auto simp: min_def)
  ultimately show thesis using new work none that by metis
qed

text \<open>
  The loop takes blocks from the front of the work, in order, and adds to the chain the ones that
  could be built, in the same order.
\<close>

lemma task_poll_refines:
  assumes "task_poll oc R X spec s = (r, s')" and "task_inv R init bs s" and sep: "hash_separates R init"
  shows "\<exists>new k. task_inv R init (bs @ new) s' \<and> work s' = drop k (work s) \<and>
    subseq (blocks_txs new) (take k (work s))"
  using assms(1,2)
proof (induction "backlog s" arbitrary: s bs rule: less_induct)
  case less
  note run = less.prems(1)[unfolded task_poll.simps[of oc R X spec s]]
  show ?case
  proof (cases "\<exists>s1 fut s2. task_receive s = Inr s1 \<and> task_take s1 = Some (fut, s2)")
    case False
    then have "s' = s \<or> task_receive s = Inr s'" using run by (auto split: sum.splits option.splits)
    then have "task_inv R init bs s' \<and> work s' = work s"
      using less.prems(2) task_receive_frame[of s s'] by (auto simp: task_inv_def)
    then show ?thesis by (intro exI[of _ "[]"] exI[of _ 0]) (simp add: blocks_txs_def)
  next
    case True
    then obtain s1 fut s2 where recv: "task_receive s = Inr s1" and take: "task_take s1 = Some (fut, s2)" by blast
    obtain q s3 where poll: "poll_insert oc R X spec fut s2 = (q, s3)" by fastforce
    obtain new k where new: "k \<le> length (fut_work fut)" "work s = fut_work fut @ work s3" "insert_task s3 = None"
      "task_inv R init (bs @ new) s3" "list_all (event_ok (sealed_blocks R (bs @ new))) (log s3)"
      "poll_ok (sealed_blocks R (bs @ new)) q"
      "poll_work q = drop k (fut_work fut)" "subseq (blocks_txs new) (take k (fut_work fut))"
      "unat (best_block (storage s3)) + length (poll_work q) + length (work s3) < 2 ^ 64"
      using less.prems(2) sep recv take poll by (rule task_round)
    show ?thesis
    proof (cases "\<exists>ev. q = Inr (FutReady ev)")
      case True
      then obtain ev where q: "q = Inr (FutReady ev)" by blast
      have k: "k = length (fut_work fut)" using new(1,7) q by simp
      have "backlog (s3\<lparr>pipe_line_events := ev\<rparr>) < backlog s"
        using task_receive_backlog[OF recv] task_take_backlog[OF take] poll_insert_frame[OF poll]
        by (simp add: backlog_def)
      moreover have "task_poll oc R X spec (s3\<lparr>pipe_line_events := ev\<rparr>) = (r, s')"
        using run recv take poll q by simp
      ultimately obtain new' k' where *: "task_inv R init ((bs @ new) @ new') s'" "work s' = drop k' (work s3)"
          "subseq (blocks_txs new') (take k' (work s3))"
        using less.hyps[of "s3\<lparr>pipe_line_events := ev\<rparr>" "bs @ new"] new(4) by auto
      then have "subseq (blocks_txs (new @ new')) (take (k + k') (work s))"
        using new(2,8) k by (simp add: blocks_txs_def list_emb_append_mono)
      then show ?thesis using * new(2) k by (intro exI[of _ "new @ new'"] exI[of _ "k + k'"]) simp
    next
      case False
      then have "work s' = poll_work q @ work s3 \<and> task_inv R init (bs @ new) s'"
        using run recv take poll new(3-6,9)
        by (auto simp: work_def task_inv_def poll_ok_def split: sum.splits fut_poll.splits)
      then show ?thesis using new(1,2,7,8) by (intro exI[of _ new] exI[of _ k]) simp
    qed
  qed
qed

text \<open>The loop is left without a running future only when there is nothing left to do.\<close>

lemma task_poll_idle:
  assumes "task_poll oc R X spec s = (Inr (), s')" and "insert_task s' = None"
  shows "work s' = []"
  using assms(1) TrueI
proof (cases rule: task_poll_rounds)
  case (idle s0)
  then have "queued s' = []" by (simp add: task_take_None)
  moreover from this have "items (chain_rx s') = []" using task_receive_queue[OF idle(2)] by blast
  ultimately show ?thesis using assms(2) by (simp add: work_def)
qed (use assms(2) in auto)

lemma task_receive_flags:
  "task_receive s = Inr s1 \<Longrightarrow> rx_alive (chain_rx s1) = rx_alive (chain_rx s) \<and> tx_alive (chain_rx s1) = tx_alive (chain_rx s)"
  by (rule chan_recv_cases[of "chain_rx s"]) (auto simp: task_receive_def)

lemma task_receive_items: "task_receive s = Inr s1 \<Longrightarrow> length (items (chain_rx s1)) \<le> length (items (chain_rx s))"
  by (rule chan_recv_cases[of "chain_rx s"]) (auto simp: task_receive_def)

lemma task_take_channel: "task_take s = Some (fut, s1) \<Longrightarrow> chain_rx s1 = chain_rx s"
  by (auto simp: task_take_def split: option.splits)

lemma task_poll_channel:
  assumes "task_poll oc R X spec s = (r, s')"
  shows "rx_alive (chain_rx s') = rx_alive (chain_rx s) \<and> tx_alive (chain_rx s') = tx_alive (chain_rx s) \<and>
    length (items (chain_rx s')) \<le> length (items (chain_rx s))"
proof -
  define P where "P t \<longleftrightarrow> rx_alive (chain_rx t) = rx_alive (chain_rx s) \<and> tx_alive (chain_rx t) = tx_alive (chain_rx s) \<and>
    length (items (chain_rx t)) \<le> length (items (chain_rx s))" for t :: "('a, 'b) task_sys"
  have recv: "P t \<Longrightarrow> task_receive t = Inr t1 \<Longrightarrow> P t1" for t t1
    using task_receive_flags[of t t1] task_receive_items[of t t1] by (auto simp: P_def)
  have round: "P t \<Longrightarrow> task_receive t = Inr t1 \<Longrightarrow> task_take t1 = Some (fut, t2) \<Longrightarrow>
      poll_insert oc R X spec fut t2 = (q, t3) \<Longrightarrow> P t3" for t t1 fut t2 q t3
    using recv[of t t1] task_take_channel[of t1 fut t2] poll_insert_frame[of oc R X spec fut t2 q t3]
    by (simp add: P_def)
  have fields: "P (t\<lparr>pipe_line_events := ev\<rparr>) = P t" "P (t\<lparr>insert_task := f\<rparr>) = P t" for t ev f
    by (simp_all add: P_def)
  have "P s" by (simp add: P_def)
  with assms have "P s'"
    by (cases rule: task_poll_rounds) (auto simp: fields dest: recv round)
  then show ?thesis by (simp add: P_def)
qed

lemma task_poll_flags:
  "task_poll oc R X spec s = (r, s') \<Longrightarrow>
     rx_alive (chain_rx s') = rx_alive (chain_rx s) \<and> tx_alive (chain_rx s') = tx_alive (chain_rx s)"
  using task_poll_channel by blast

text \<open>A poll with a closed channel: it panics at once on an empty channel, else it takes a block from it.\<close>

lemma task_poll_closed:
  assumes "\<not> tx_alive (chain_rx s)"
  shows "items (chain_rx s) = [] \<Longrightarrow> task_poll oc R X spec s = (Inl UnwrapNone, s)"
    and "items (chain_rx s) \<noteq> [] \<Longrightarrow> task_poll oc R X spec s = (r, s') \<Longrightarrow>
      length (items (chain_rx s')) < length (items (chain_rx s))"
proof -
  show "task_poll oc R X spec s = (Inl UnwrapNone, s)" if "items (chain_rx s) = []"
    using assms that by (subst task_poll.simps) (simp add: task_receive_def)
next
  assume items: "items (chain_rx s) \<noteq> []" and run: "task_poll oc R X spec s = (r, s')"
  obtain v vs where v: "items (chain_rx s) = v # vs" using items by (cases "items (chain_rx s)") auto
  let ?s1 = "s\<lparr>chain_rx := (chain_rx s)\<lparr>items := vs\<rparr>, queued := push_back v (queued s)\<rparr>"
  have recv: "task_receive s = Inr ?s1" using v by (simp add: task_receive_def)
  obtain fut s2 where take: "task_take ?s1 = Some (fut, s2)"
    by (cases "task_take ?s1") (auto simp: task_take_None push_back_def)
  obtain q s3 where poll: "poll_insert oc R X spec fut s2 = (q, s3)" by fastforce
  have s3: "chain_rx s3 = (chain_rx s)\<lparr>items := vs\<rparr>"
    using poll_insert_frame[OF poll] task_take_channel[OF take] by simp
  have "s' = s3 \<or> (\<exists>f. s' = s3\<lparr>insert_task := Some f\<rparr>) \<or>
      (\<exists>ev. task_poll oc R X spec (s3\<lparr>pipe_line_events := ev\<rparr>) = (r, s'))"
    using run[unfolded task_poll.simps[of oc R X spec s]] recv take poll
    by (auto split: sum.splits fut_poll.splits)
  then have "length (items (chain_rx s')) \<le> length vs"
    using s3 task_poll_channel[of oc R X spec _ r s'] by fastforce
  then show "length (items (chain_rx s')) < length (items (chain_rx s))" using v by simp
qed

section \<open>A responsive environment\<close>

text \<open>The events of a block that is built and that the engine finds valid.\<close>

definition block_events :: "'tx reth \<Rightarrow> Header \<times> 'tx BlockBody \<Rightarrow> task_event list" where
  "block_events R hb =
     (let sh = \<lparr>header_of = fst hb, seal_hash = hash_slow R (fst hb)\<rparr> in
      [RemoveTransactions (map (tx_hash R) (body_transactions (snd hb))),
       ForkchoiceUpdated (forkchoice_state sh), SetCanonicalHead sh, SetSafe sh, SetFinalized sh])"

definition builds ::
  "bool \<Rightarrow> 'tx reth \<Rightarrow> ('tx, 'db, 'st, 'r) executor \<Rightarrow> ChainSpec \<Rightarrow> 'db build_env \<Rightarrow> bool" where
  "builds oc R X spec env \<longleftrightarrow>
     (\<forall>txs st. unat (best_block st) + 1 < 2 ^ 64 \<longrightarrow>
        (\<exists>sh outcome st'. build_and_execute oc R X spec env txs [] st = (Inr (Inr (sh, outcome)), st')))"

lemma poll_insert_builds:
  assumes builds: "builds oc R X spec env" and sep: "hash_separates R init"
    and repr: "chain_repr R init bs (storage s)" and room: "unat (best_block (storage s)) + 1 < 2 ^ 64"
    and lock: "lock_polls s = LockAcquired env # ls" and fcu: "fcu_polls s = RxReply FcuValid # fs"
  obtains hb st where "poll_insert oc R X spec (AwaitLock txs ev) s =
      (Inr (FutReady ev), s\<lparr>lock_polls := ls, storage := st, log := log s @ block_events R hb, fcu_polls := fs\<rparr>)"
    "body_transactions (snd hb) = txs" "chain_repr R init (bs @ [hb]) st"
proof -
  obtain sh outcome st where build: "build_and_execute oc R X spec env txs [] (storage s) = (Inr (Inr (sh, outcome)), st)"
    using builds room unfolding builds_def by blast
  obtain body where body: "body_transactions body = txs" "chain_repr R init (bs @ [(header_of sh, body)]) st"
    using build_separated[OF repr room sep build] by metis
  have "seal_hash sh = hash_slow R (header_of sh)" using build by (rule build_succeeded)
  then have sh: "\<lparr>header_of = header_of sh, seal_hash = hash_slow R (header_of sh)\<rparr> = sh" by simp
  show thesis
    by (rule that[of "(header_of sh, body)" st])
      (use body build lock fcu in \<open>simp_all add: poll_insert_def await_fcu_def block_events_def Let_def sh\<close>)
qed

text \<open>One round of the loop that builds the oldest block.\<close>

lemma task_round_builds:
  assumes inv: "task_inv R init bs s" and sep: "hash_separates R init"
    and none: "insert_task s = None" and alive: "tx_alive (chain_rx s)" and work: "work s = txs # rest"
    and env: "builds oc R X spec env"
    and lock: "lock_polls s = LockAcquired env # ls" and fcu: "fcu_polls s = RxReply FcuValid # fs"
  shows "\<exists>hb s3. task_poll oc R X spec s = task_poll oc R X spec s3 \<and> insert_task s3 = None \<and>
    tx_alive (chain_rx s3) \<and> work s3 = rest \<and> lock_polls s3 = ls \<and> fcu_polls s3 = fs \<and>
    task_inv R init (bs @ [hb]) s3 \<and> body_transactions (snd hb) = txs \<and> log s3 = log s @ block_events R hb"
proof -
  obtain s1 where s1: "task_receive s = Inr s1" "tx_alive (chain_rx s1)"
    using task_receive_alive[OF alive] by blast
  note fr1 = task_receive_frame[OF s1(1)]
  have "queued s1 \<noteq> []" using task_receive_queue[OF s1(1)] fr1 work none by (auto simp: work_def)
  then obtain fut s2 where take: "task_take s1 = Some (fut, s2)" by (cases "task_take s1") (auto simp: task_take_None)
  note fr2 = task_take_frame[OF take]
  obtain ev where fut: "fut = AwaitLock txs ev" and rest: "work s2 = rest" using fr1 fr2 none work by auto
  have repr: "chain_repr R init bs (storage s2)" and room: "unat (best_block (storage s2)) + 1 + length rest < 2 ^ 64"
    using inv fr1 fr2 work by (simp_all add: task_inv_def)
  have l2: "lock_polls s2 = LockAcquired env # ls" and f2: "fcu_polls s2 = RxReply FcuValid # fs"
    using lock fcu fr1 fr2 by simp_all
  have "unat (best_block (storage s2)) + 1 < 2 ^ 64" using room by simp
  then obtain hb st where
    poll: "poll_insert oc R X spec (AwaitLock txs ev) s2 = (Inr (FutReady ev),
      s2\<lparr>lock_polls := ls, storage := st, log := log s2 @ block_events R hb, fcu_polls := fs\<rparr>)" (is "_ = (_, ?s3)")
    and hb: "body_transactions (snd hb) = txs" "chain_repr R init (bs @ [hb]) st"
    by (rule poll_insert_builds[OF env sep repr _ l2 f2])
  let ?s = "?s3\<lparr>pipe_line_events := ev\<rparr>"
  have w: "work ?s = rest" using rest by (simp add: work_def)
  have "unat (best_block st) = unat (best_block (storage s2)) + 1"
    using chain_repr_best[OF hb(2)] chain_repr_best[OF repr] by simp
  moreover have "list_all (event_ok (sealed_blocks R (bs @ [hb]))) (log s2)"
    using inv fr1 fr2 by (intro log_ok_append) (simp add: task_inv_def)
  moreover have "list_all (event_ok (sealed_blocks R (bs @ [hb]))) (block_events R hb)"
    by (simp add: block_events_def Let_def sealed_blocks_def)
  ultimately have "task_inv R init (bs @ [hb]) ?s" using hb(2) fr2 room w by (simp add: task_inv_def)
  moreover have "task_poll oc R X spec s = task_poll oc R X spec ?s"
    using s1(1) take fut poll by (subst task_poll.simps) simp
  moreover have "tx_alive (chain_rx ?s)" using s1(2) task_take_channel[OF take] by simp
  ultimately show ?thesis
    using w hb(1) fr1 fr2 by (intro exI[of _ hb] exI[of _ ?s]) simp
qed

lemma task_poll_completes:
  assumes "task_inv R init bs s" and sep: "hash_separates R init"
    and "insert_task s = None" and "tx_alive (chain_rx s)"
    and "lock_polls s = map LockAcquired envs @ ls" and "length envs = length (work s)"
    and "fcu_polls s = replicate (length (work s)) (RxReply FcuValid) @ fs"
    and "\<forall>env\<in>set envs. builds oc R X spec env"
  shows "\<exists>s' new. task_poll oc R X spec s = (Inr (), s') \<and> insert_task s' = None \<and> work s' = [] \<and>
    task_inv R init (bs @ new) s' \<and> blocks_txs new = work s \<and>
    log s' = log s @ concat (map (block_events R) new)"
  using assms(1,3-8)
proof (induction "work s" arbitrary: s bs envs)
  case Nil
  obtain s1 where s1: "task_receive s = Inr s1" using task_receive_alive[OF Nil.prems(3)] by blast
  note fr = task_receive_frame[OF s1]
  have "task_take s1 = None" using fr Nil.hyps Nil.prems(2) by (simp add: task_take_None work_def)
  then have "task_poll oc R X spec s = (Inr (), s1)" using s1 by (simp add: task_poll.simps)
  then show ?case using fr Nil.prems(1,2) Nil.hyps
    by (intro exI[of _ s1] exI[of _ "[]"]) (simp add: task_inv_def blocks_txs_def)
next
  case (Cons txs rest)
  note work = Cons.hyps(2)[symmetric]
  obtain env envs' where envs: "envs = env # envs'" using Cons.prems(5) work by (cases envs) auto
  have "builds oc R X spec env" using Cons.prems(7) envs by simp
  then obtain hb s3 where s3: "task_poll oc R X spec s = task_poll oc R X spec s3" "insert_task s3 = None"
    "tx_alive (chain_rx s3)" "work s3 = rest" "lock_polls s3 = map LockAcquired envs' @ ls"
    "fcu_polls s3 = replicate (length rest) (RxReply FcuValid) @ fs"
    "task_inv R init (bs @ [hb]) s3" "body_transactions (snd hb) = txs" "log s3 = log s @ block_events R hb"
    using task_round_builds[OF Cons.prems(1) sep Cons.prems(2,3) work, of oc X spec env
        "map LockAcquired envs' @ ls" "replicate (length rest) (RxReply FcuValid) @ fs"]
      Cons.prems(4,6) envs work by auto
  obtain s' new where *: "task_poll oc R X spec s3 = (Inr (), s')" "insert_task s' = None" "work s' = []"
    "task_inv R init ((bs @ [hb]) @ new) s'" "blocks_txs new = work s3"
    "log s' = log s3 @ concat (map (block_events R) new)"
    using Cons.hyps(1)[of s3 "bs @ [hb]" envs'] s3 Cons.prems(5,7) envs work by auto
  have "blocks_txs (hb # new) = work s" using *(5) s3 work by (simp add: blocks_txs_def)
  then show ?case using * s3 by (intro exI[of _ s'] exI[of _ "hb # new"]) simp
qed

section \<open>Properties of the task\<close>

text \<open>A task that has just been created over the concrete genesis, with two blocks in its channel.\<close>

definition toy_task :: "(nat, unit) task_sys" where
  "toy_task =
     (MalachiteTask_new (Storage_new toy_genesis) (new_channel\<lparr>items := [[1, 2], [3]]\<rparr>))
       \<lparr>lock_polls := [LockAcquired toy_env, LockAcquired toy_env],
        fcu_polls := [RxReply FcuValid, RxReply FcuValid]\<rparr>"

lemma toy_task_simps [simp]:
  "insert_task toy_task = None" "queued toy_task = []" "items (chain_rx toy_task) = [[1, 2], [3]]"
  "tx_alive (chain_rx toy_task)" "storage toy_task = Storage_new toy_genesis" "log toy_task = []"
  "lock_polls toy_task = [LockAcquired toy_env, LockAcquired toy_env]"
  "fcu_polls toy_task = [RxReply FcuValid, RxReply FcuValid]" "work toy_task = [[1, 2], [3]]"
  by (simp_all add: toy_task_def MalachiteTask_new_def new_channel_def work_def)

lemma toy_task_inv: "task_inv toy_reth toy_genesis [] toy_task"
  using toy_repr by (simp add: task_inv_def) (simp add: Storage_new_def toy_genesis_def blank_header_def)

lemma toy_builds: "builds oc toy_reth toy_executor (toy_spec False) toy_env"
  using toy_build by (auto simp: builds_def)



text \<open>C25: no wake-up is lost: when a poll returns and no insert future is waiting, the task's queue and
  its channel are both empty, so the only thing that can give the task work is a new block, which wakes it.\<close>

theorem idle_task_has_no_work:
  assumes "task_poll oc R X spec s = (Inr (), s')" and "insert_task s' = None"
  shows "queued s' = [] \<and> items (chain_rx s') = []"
  using task_poll_idle[OF assms] by (simp add: work_def)

theorem idle_task_has_no_work_witness:
  "\<exists>s'. task_poll True toy_reth toy_executor (toy_spec False) toy_task = (Inr (), s') \<and>
     queued s' = [] \<and> items (chain_rx s') = []"
proof -
  obtain s' where "task_poll True toy_reth toy_executor (toy_spec False) toy_task = (Inr (), s')" "insert_task s' = None"
    using task_poll_completes[OF toy_task_inv toy_separates, of "[toy_env, toy_env]" "[]" "[]" True toy_executor "toy_spec False"]
    by (auto simp: toy_builds numeral_2_eq_2)
  with idle_task_has_no_work[OF this] show ?thesis by blast
qed

text \<open>C10: in a responsive environment the task keeps up: if the lock is free, every block can be built and
  the engine answers \<open>VALID\<close>, one poll returns with no work left, the chain has grown by exactly the
  waiting blocks in their order, and for each of them, in order, its transactions were removed from the
  pool, the engine was sent one forkchoice update, and the head, safe and finalized blocks were set.\<close>

theorem responsive_poll_executes_all:
  assumes "task_inv R init bs s" and "hash_separates R init"
    and "insert_task s = None" and "tx_alive (chain_rx s)"
    and "lock_polls s = map LockAcquired envs @ ls" and "length envs = length (work s)"
    and "fcu_polls s = replicate (length (work s)) (RxReply FcuValid) @ fs"
    and "\<forall>env\<in>set envs. builds oc R X spec env"
  shows "\<exists>s' new. task_poll oc R X spec s = (Inr (), s') \<and> work s' = [] \<and>
    chain_repr R init (bs @ new) (storage s') \<and> blocks_txs new = work s \<and>
    log s' = log s @ concat (map (block_events R) new)"
  using task_poll_completes[OF assms] by (auto simp: task_inv_def)

theorem responsive_poll_executes_all_witness:
  "\<exists>s' new. task_poll True toy_reth toy_executor (toy_spec False) toy_task = (Inr (), s') \<and> work s' = [] \<and>
     chain_repr toy_reth toy_genesis new (storage s') \<and> blocks_txs new = [[1, 2], [3]]"
  using responsive_poll_executes_all
    [OF toy_task_inv toy_separates, of "[toy_env, toy_env]" "[]" "[]" True toy_executor "toy_spec False"]
  by (auto simp: toy_builds numeral_2_eq_2)


text \<open>a block that cannot be built is dropped: the future finishes and gives the pipeline events back,
  the storage is unchanged, and neither the pool nor the engine hears of the block.\<close>

theorem failed_block_is_dropped:
  assumes "lock_polls s = LockAcquired env # ls"
    and "build_and_execute oc R X spec env txs [] (storage s) = (Inr (Inl err), st)"
  shows "poll_insert oc R X spec (AwaitLock txs ev) s = (Inr (FutReady ev), s\<lparr>lock_polls := ls\<rparr>)"
proof -
  have "st = storage s" using build_failed_unchanged[OF assms(2)] by simp
  with assms show ?thesis by (simp add: poll_insert_def Let_def)
qed

theorem failed_block_is_dropped_witness:
  "poll_insert True toy_reth toy_executor (toy_spec False) (AwaitLock [1] (Some 3))
       (toy_task\<lparr>lock_polls := [LockAcquired (toy_env\<lparr>latest := Inl (ProviderError ''db'')\<rparr>)]\<rparr>)
     = (Inr (FutReady (Some 3)), toy_task\<lparr>lock_polls := []\<rparr>)"
proof -
  have plus: "checked_plus True (best_block (Storage_new toy_genesis :: nat StorageInner)) 1 = Inr 1"
    by (simp add: checked_plus_def Storage_new_def toy_genesis_def blank_header_def)
  have "build_and_execute True toy_reth toy_executor (toy_spec False)
       (toy_env\<lparr>latest := Inl (ProviderError ''db'')\<rparr>) [1] [] (Storage_new toy_genesis :: nat StorageInner)
     = (Inr (Inl (LatestBlockError (ProviderError ''db''))), Storage_new toy_genesis)"
    by (simp add: build_and_execute_def build_header_template_def toy_reth_def toy_spec_def toy_env_def plus Let_def)
  then show ?thesis
    using failed_block_is_dropped[of "toy_task\<lparr>lock_polls := [LockAcquired (toy_env\<lparr>latest := Inl (ProviderError ''db'')\<rparr>)]\<rparr>"
        _ "[]" True toy_reth toy_executor "toy_spec False" "[1]" _ "Storage_new toy_genesis" "Some 3"]
    by simp
qed

end
