(* ===== verification/Node.thy ===== *)
theory Node
  imports Simulator Chain_Consumer Download_Client Mining_Task
begin

text \<open>
  The node: \<open>MalachiteChainBuilder\<close> and \<open>MalachiteChain\<close> of \<open>chain.rs\<close>, which create the components
  and connect them, \<open>mac.rs\<close>, and the lines of \<open>launcher.rs\<close> that start them; the rest of the
  launcher is in \<open>Launcher\<close>.

  \<open>node\<close> is the state of the four threads (simulator, block builder, consumer, execution task) with
  the channels between them: the proposals and the decision steps are in the simulator's world, the
  relayed blocks in the task's channel. \<open>node_move\<close> is their interleaving, up to the first panic: a
  thread that panics makes no move any more, and what the others then do is in \<open>Node_Failures\<close>. Its
  invariant is the end-to-end contract: the blocks that are executed are the blocks that were
  decided, in order.
\<close>

section \<open>mac.rs\<close>

text \<open>The validation that the pipeline asks for: every answer is \<open>Ok(())\<close>.\<close>

datatype ConsensusError = ConsensusRejected

record MalachiteConsensus =
  mac_chain_spec :: ChainSpec

definition MalachiteConsensus_new :: "ChainSpec \<Rightarrow> MalachiteConsensus" where
  "MalachiteConsensus_new spec = \<lparr>mac_chain_spec = spec\<rparr>"

definition build_consensus :: "ChainSpec \<Rightarrow> MalachiteConsensus" where
  "build_consensus spec = MalachiteConsensus_new spec"

definition validate_header :: "MalachiteConsensus \<Rightarrow> SealedHeader \<Rightarrow> ConsensusError + unit" where
  "validate_header self header = Inr ()"

definition validate_header_against_parent ::
  "MalachiteConsensus \<Rightarrow> SealedHeader \<Rightarrow> SealedHeader \<Rightarrow> ConsensusError + unit" where
  "validate_header_against_parent self header parent = Inr ()"

definition validate_header_with_total_difficulty ::
  "MalachiteConsensus \<Rightarrow> Header \<Rightarrow> U256 \<Rightarrow> ConsensusError + unit" where
  "validate_header_with_total_difficulty self header total_diff = Inr ()"

definition validate_block_pre_execution :: "MalachiteConsensus \<Rightarrow> 'tx Block \<Rightarrow> ConsensusError + unit" where
  "validate_block_pre_execution self block = Inr ()"

definition validate_block_post_execution ::
  "MalachiteConsensus \<Rightarrow> 'tx Block \<times> Address list \<Rightarrow> ('st, 'r) BlockExecutionOutput \<Rightarrow> ConsensusError + unit" where
  "validate_block_post_execution self block input = Inr ()"

section \<open>Building the components\<close>

text \<open>
  \<open>MalachiteChainBuilder::new\<close>: the storage starts from the latest header of the database, or from
  the genesis header when there is none or it cannot be read.
\<close>

definition MalachiteChainBuilder_new ::
  "provider_error + SealedHeader option \<Rightarrow> SealedHeader \<Rightarrow> 'tx StorageInner" where
  "MalachiteChainBuilder_new latest_header sealed_genesis_header =
     Storage_new (case latest_header of
         Inr (Some header) \<Rightarrow> header
       | Inr None \<Rightarrow> sealed_genesis_header
       | Inl _ \<Rightarrow> sealed_genesis_header)"

text \<open>
  \<open>build\<close>: the two channels, the chain (its pool belongs to reth; it holds the sender of the decision
  channel), the consumer between the two channels, and the task at the end of the second one. The client shares
  the task's storage.
\<close>

record 'tx MalachiteChain =
  to_consumer :: "'tx DecisionStep channel"

definition MalachiteChain_new :: "'tx DecisionStep channel \<Rightarrow> 'tx MalachiteChain" where
  "MalachiteChain_new d_tx = \<lparr>to_consumer = d_tx\<rparr>"

record ('tx, 'db) components =
  malachite_chain :: "'tx MalachiteChain"
  malachite_consumer :: "'tx consumer"
  malachite_task :: "('tx, 'db) task_sys"

definition MalachiteChainBuilder_build :: "'tx StorageInner \<Rightarrow> ('tx, 'db) components" where
  "MalachiteChainBuilder_build st =
     \<lparr>malachite_chain = MalachiteChain_new new_channel,
      malachite_consumer = consumer_new new_channel,
      malachite_task = MalachiteTask_new st new_channel\<rparr>"

text \<open>
  \<open>MalachiteChain::poll\<close> up to the simulator's loop: a network of four peers, a fresh block
  builder, and the system initialised.
\<close>

definition MalachiteChain_poll ::
  "ed25519 \<Rightarrow> bytes \<Rightarrow> ('tx, 'cs) consensus_lib \<Rightarrow> 'tx MalachiteChain
     \<Rightarrow> panic + ('tx, 'cs) sim_sys \<times> 'tx builder" where
  "MalachiteChain_poll E rng lib this =
     (case Simulator_new E rng lib 4 (to_consumer this) of
        Inl p \<Rightarrow> Inl p
      | Inr s \<Rightarrow>
          (case initialize_system lib s of
             (Inl p, _) \<Rightarrow> Inl p
           | (Inr _, s') \<Rightarrow> Inr (s', builder_new)))"

record ('tx, 'cs, 'db) node =
  chain_sys :: "('tx, 'cs) sim_sys"
  block_builder :: "'tx builder"
  consumed :: "BaseHeight \<rightharpoonup> 'tx BaseValue"
  task :: "('tx, 'db) task_sys"

text \<open>The launcher: build, hand the pipeline's events to the task, start.\<close>

definition launch ::
  "ed25519 \<Rightarrow> bytes \<Rightarrow> ('tx, 'cs) consensus_lib \<Rightarrow> provider_error + SealedHeader option \<Rightarrow> SealedHeader
     \<Rightarrow> event_stream \<Rightarrow> panic + ('tx, 'cs, 'db) node" where
  "launch E rng lib latest_header genesis events =
     (let c = MalachiteChainBuilder_build (MalachiteChainBuilder_new latest_header genesis) in
      case MalachiteChain_poll E rng lib (malachite_chain c) of
        Inl p \<Rightarrow> Inl p
      | Inr (s, b) \<Rightarrow>
          Inr \<lparr>chain_sys = s, block_builder = b, consumed = decisions (malachite_consumer c),
               task = set_pipeline_events events (malachite_task c)\<rparr>)"

section \<open>The threads together\<close>

text \<open>
  One move: the simulator handles an envelope, the builder collects the pool's transactions or
  offers its value, the consumer handles one decision step, the task is polled, or the
  environment has new answers ready for the task's waits.
\<close>

inductive node_move ::
  "bool \<Rightarrow> ed25519 \<Rightarrow> ('tx, 'cs) consensus_lib \<Rightarrow> 'tx reth \<Rightarrow> ('tx, 'db, 'st, 'r) executor \<Rightarrow> ChainSpec
     \<Rightarrow> 'tx DecisionStep list \<Rightarrow> ('tx, 'cs, 'db) node \<Rightarrow> ('tx, 'cs, 'db) node \<Rightarrow> bool"
  for oc E lib R X spec where
  consensus: "sim_step oc E lib (chain_sys n) = Some (Ran (Inr ()) s') \<Longrightarrow>
    node_move oc E lib R X spec [] n (n\<lparr>chain_sys := s'\<rparr>)"
| collect: "node_move oc E lib R X spec [] n (n\<lparr>block_builder := builder_collect txs (block_builder n)\<rparr>)"
| offer: "builder_send oc (block_builder n) (proposals (world (chain_sys n))) = (Inr b, ch) \<Longrightarrow>
    node_move oc E lib R X spec [] n
      (n\<lparr>block_builder := b, chain_sys := (chain_sys n)\<lparr>world := (world (chain_sys n))\<lparr>proposals := ch\<rparr>\<rparr>\<rparr>)"
| consume: "chan_recv (decision_steps (world (chain_sys n))) = (Item d, ch) \<Longrightarrow>
    consumer_handle d \<lparr>decisions = consumed n, to_task = chain_rx (task n)\<rparr> = (Inr (), c) \<Longrightarrow>
    node_move oc E lib R X spec [d] n
      (n\<lparr>chain_sys := (chain_sys n)\<lparr>world := (world (chain_sys n))\<lparr>decision_steps := ch\<rparr>\<rparr>,
         consumed := decisions c, task := (task n)\<lparr>chain_rx := to_task c\<rparr>\<rparr>)"
| execute: "task_poll oc R X spec (task n) = (Inr (), t) \<Longrightarrow>
    node_move oc E lib R X spec [] n (n\<lparr>task := t\<rparr>)"
| answers: "node_move oc E lib R X spec [] n
      (n\<lparr>task := (task n)\<lparr>lock_polls := lock_polls (task n) @ ls, fcu_polls := fcu_polls (task n) @ fs\<rparr>\<rparr>)"

text \<open>
  \<open>node_run ds n0 n\<close>: the threads go from \<open>n0\<close> to \<open>n\<close>, the consumer handling the decision steps
  \<open>ds\<close> on the way.
\<close>

inductive node_run ::
  "bool \<Rightarrow> ed25519 \<Rightarrow> ('tx, 'cs) consensus_lib \<Rightarrow> 'tx reth \<Rightarrow> ('tx, 'db, 'st, 'r) executor \<Rightarrow> ChainSpec
     \<Rightarrow> 'tx DecisionStep list \<Rightarrow> ('tx, 'cs, 'db) node \<Rightarrow> ('tx, 'cs, 'db) node \<Rightarrow> bool"
  for oc E lib R X spec where
  none: "node_run oc E lib R X spec [] n n"
| move: "node_run oc E lib R X spec ds n n' \<Longrightarrow> node_move oc E lib R X spec d n' n'' \<Longrightarrow>
    node_run oc E lib R X spec (ds @ d) n n''"

section \<open>The launch\<close>

definition initial_header :: "provider_error + SealedHeader option \<Rightarrow> SealedHeader \<Rightarrow> SealedHeader" where
  "initial_header latest_header genesis =
     (case latest_header of Inr (Some header) \<Rightarrow> header | _ \<Rightarrow> genesis)"

text \<open>The node after the launch, written out.\<close>

definition launched ::
  "ed25519 \<Rightarrow> bytes \<Rightarrow> ('tx, 'cs) consensus_lib \<Rightarrow> SealedHeader \<Rightarrow> event_stream \<Rightarrow> ('tx, 'cs, 'db) node" where
  "launched E rng lib init events =
     \<lparr>chain_sys = started_system E rng lib 4 new_channel, block_builder = builder_new, consumed = Map.empty,
      task = \<lparr>insert_task = None, queued = [], pipe_line_events = Some events, chain_rx = new_channel,
              storage = Storage_new init, log = [], lock_polls = [], fcu_polls = []\<rparr>\<rparr>"

lemma launch_ok:
  assumes "lib_keeps_params lib"
  shows "launch E rng lib latest_header genesis events =
    Inr (launched E rng lib (initial_header latest_header genesis) events)"
proof -
  obtain s0 where "Simulator_new E rng lib 4 new_channel = Inr s0"
    "initialize_system lib s0 = (Inr (), started_system E rng lib 4 new_channel)"
    using new_then_initialize[OF assms, of 4 E rng new_channel] by auto
  then have "MalachiteChain_poll E rng lib (MalachiteChain_new new_channel) = Inr (started_system E rng lib 4 new_channel, builder_new)"
    by (simp add: MalachiteChain_poll_def MalachiteChain_new_def)
  moreover have "MalachiteChainBuilder_new latest_header genesis = Storage_new (initial_header latest_header genesis)"
    by (simp add: MalachiteChainBuilder_new_def initial_header_def split: sum.splits option.splits)
  ultimately show ?thesis
    by (simp add: launch_def launched_def MalachiteChainBuilder_build_def consumer_new_def
        MalachiteTask_new_def set_pipeline_events_def Let_def)
qed

section \<open>The invariant of the node\<close>

text \<open>
  \<open>exec_inv\<close>: of the blocks that the consumer relayed, the first \<open>k\<close> have been taken up, the chain
  holds those among them that could be built, in order, and the others are still waiting.
\<close>

definition exec_inv ::
  "'tx reth \<Rightarrow> SealedHeader \<Rightarrow> 'tx list list \<Rightarrow> 'tx blocks \<Rightarrow> ('tx, 'db) task_sys \<Rightarrow> bool" where
  "exec_inv R init rel bs t \<longleftrightarrow>
     task_inv R init bs t \<and>
     (\<exists>k\<le>length rel. work t = drop k rel \<and> subseq (blocks_txs bs) (take k rel))"

definition node_inv ::
  "'tx reth \<Rightarrow> SealedHeader \<Rightarrow> 'tx DecisionStep list \<Rightarrow> ('tx, 'cs, 'db) node \<Rightarrow> bool" where
  "node_inv R init ds n \<longleftrightarrow>
     sim_inv 4 (chain_sys n) \<and> (\<exists>m. builder_ok m (block_builder n)) \<and>
     announced ds \<and> consumed n = first_proposed ds \<and>
     rx_alive (chain_rx (task n)) \<and> tx_alive (chain_rx (task n)) \<and>
     (unat (number (header_of init)) + length (relayed ds) < 2 ^ 64 \<longrightarrow>
        (\<exists>bs. exec_inv R init (relayed ds) bs (task n)))"

lemma launched_inv: "node_inv R init [] (launched E rng lib init events)"
proof -
  have "exec_inv R init [] [] (task (launched E rng lib init events :: ('a, 'b, 'c) node))"
    using chain_repr_new[of R init] unat_u64[of "number (header_of init)"]
    by (simp add: exec_inv_def task_inv_def launched_def work_def new_channel_def blocks_txs_def
        Storage_new_def Let_def)
  moreover have "builder_ok 0 (builder_new :: 'a builder)" by (simp add: builder_ok_def builder_new_def)
  ultimately show ?thesis
    using started_inv[of 4]
    by (auto simp: node_inv_def launched_def announced_def first_proposed_def relayed_def new_channel_def fun_eq_iff)
qed

lemma exec_inv_length:
  assumes "exec_inv R init rel bs t"
  shows "unat (best_block (storage t)) + length (work t) \<le> unat (number (header_of init)) + length rel"
proof -
  obtain k where k: "work t = drop k rel" "subseq (blocks_txs bs) (take k rel)"
    using assms by (auto simp: exec_inv_def)
  have "length bs \<le> length (take k rel)" using list_emb_length[OF k(2)] by (simp add: blocks_txs_def)
  moreover have "unat (best_block (storage t)) = unat (number (header_of init)) + length bs"
    using assms chain_repr_best by (auto simp: exec_inv_def task_inv_def)
  ultimately show ?thesis using k(1) by (simp add: min_def split: if_splits)
qed

lemma exec_inv_relay:
  assumes inv: "exec_inv R init rel bs t" and room: "unat (number (header_of init)) + length (rel @ xs) < 2 ^ 64"
  shows "exec_inv R init (rel @ xs) bs (t\<lparr>chain_rx := (chain_rx t)\<lparr>items := items (chain_rx t) @ xs\<rparr>\<rparr>)"
proof -
  let ?t = "t\<lparr>chain_rx := (chain_rx t)\<lparr>items := items (chain_rx t) @ xs\<rparr>\<rparr>"
  obtain k where k: "k \<le> length rel" "work t = drop k rel" "subseq (blocks_txs bs) (take k rel)"
    using inv by (auto simp: exec_inv_def)
  have work: "work ?t = work t @ xs" by (simp add: work_def)
  have "task_inv R init bs ?t"
    using inv room exec_inv_length[OF inv] by (simp add: exec_inv_def task_inv_def work)
  then show ?thesis
    using k by (auto simp: exec_inv_def work intro!: exI[of _ k])
qed

lemma exec_inv_poll:
  assumes inv: "exec_inv R init rel bs t" and sep: "hash_separates R init"
    and run: "task_poll oc R X spec t = (r, t')"
  shows "\<exists>new. exec_inv R init rel (bs @ new) t'"
proof -
  obtain k where k: "k \<le> length rel" "work t = drop k rel" "subseq (blocks_txs bs) (take k rel)"
    and task: "task_inv R init bs t"
    using inv by (auto simp: exec_inv_def)
  obtain new j where new: "task_inv R init (bs @ new) t'" "work t' = drop j (work t)"
    "subseq (blocks_txs new) (take j (work t))"
    using task_poll_refines[OF run task sep] by blast
  have "subseq (blocks_txs (bs @ new)) (take k rel @ take j (drop k rel))"
    unfolding blocks_txs_def map_append
    using k(3) new(3) k(2) by (intro list_emb_append_mono) (simp_all add: blocks_txs_def)
  then have "subseq (blocks_txs (bs @ new)) (take (k + j) rel)" by (simp add: take_add)
  moreover have "work t' = drop (k + j) rel" using new(2) k(2) by (simp add: add.commute)
  ultimately have "\<exists>i\<le>length rel. work t' = drop i rel \<and> subseq (blocks_txs (bs @ new)) (take i rel)"
    by (intro exI[of _ "min (k + j) (length rel)"]) (auto simp: min_def)
  with new(1) show ?thesis by (auto simp: exec_inv_def)
qed

lemma exec_inv_answers:
  "exec_inv R init rel bs (t\<lparr>lock_polls := ls, fcu_polls := fs\<rparr>) = exec_inv R init rel bs t"
  by (simp add: exec_inv_def task_inv_def work_def)

lemma builder_ok_send: "builder_ok m b \<Longrightarrow> builder_send oc b ch = (Inr b', ch') \<Longrightarrow> \<exists>m. builder_ok m b'"
  using builder_send_ok by blast

text \<open>What the builder does to the proposals is an environment move of the simulator.\<close>

lemma builder_send_world:
  assumes "builder_send oc b (proposals w) = (r, ch)" and "world_ok sz w"
  shows "world_ok sz (w\<lparr>proposals := ch\<rparr>)"
  using assms
  by (auto simp: builder_send_def world_ok_def chan_send_bounded_def le_Suc_eq
      split: option.splits bounded_send.splits sum.splits if_splits)

lemma node_move_sim:
  assumes "node_move oc E lib R X spec d n n'" and inv: "sim_inv 4 (chain_sys n)"
  shows "sim_inv 4 (chain_sys n')"
  using assms(1)
proof cases
  case (consensus s')
  then show ?thesis using sim_step_Ran[OF inv consensus(3)] by simp
next
  case (offer b ch)
  then show ?thesis using inv builder_send_world[OF offer(3)] by (simp add: sim_inv_def)
next
  case (consume d' ch c)
  then show ?thesis using inv by (auto simp: sim_inv_def world_ok_def)
qed (use inv in simp_all)

lemma node_move_inv:
  assumes sep: "hash_separates R init" and "node_move oc E lib R X spec d n n'" and inv: "node_inv R init ds n"
  shows "node_inv R init (ds @ d) n'"
proof -
  have sim: "sim_inv 4 (chain_sys n')" using node_move_sim[OF assms(2)] inv by (simp add: node_inv_def)
  show ?thesis
    using assms(2)
  proof cases
    case (consensus s')
    then show ?thesis using inv sim by (auto simp: node_inv_def)
  next
    case (collect txs)
    then show ?thesis using inv builder_collect_ok by (auto simp: node_inv_def)
  next
    case (offer b ch)
    then have "\<exists>m. builder_ok m b" using inv builder_ok_send by (auto simp: node_inv_def)
    with offer inv sim show ?thesis by (auto simp: node_inv_def)
  next
    case (consume d' ch c)
    let ?tt = "chain_rx (task n)"
    have c: "peer0_final d' \<longrightarrow> first_proposed ds (step_height d') \<noteq> None"
      "c = \<lparr>decisions = first_proposed (ds @ [d']), to_task = ?tt\<lparr>items := items ?tt @ relay_of ds d'\<rparr>\<rparr>"
      using consume(4) inv consumer_step[of ?tt d' ds] by (auto simp: node_inv_def split: if_splits)
    have "relayed (ds @ [d']) = relayed ds @ relay_of ds d'" by (simp add: relayed_snoc relay_of_def)
    then show ?thesis
      using consume inv sim c exec_inv_relay[of R init "relayed ds" _ "task n" "relay_of ds d'"]
      by (auto simp: node_inv_def announced_snoc)
  next
    case (execute t)
    then have "rx_alive (chain_rx t) = rx_alive (chain_rx (task n))" "tx_alive (chain_rx t) = tx_alive (chain_rx (task n))"
      using task_poll_flags by blast+
    with execute inv show ?thesis using exec_inv_poll[OF _ sep execute(3)] by (auto simp: node_inv_def)
  next
    case (answers ls fs)
    then show ?thesis using inv by (auto simp: node_inv_def exec_inv_answers)
  qed
qed

lemma node_run_inv:
  assumes sep: "hash_separates R init" and "node_run oc E lib R X spec ds n n'" and "node_inv R init [] n"
  shows "node_inv R init ds n'"
  using assms(2,3)
proof (induction rule: node_run.induct)
  case (none n)
  then show ?case by simp
next
  case (move ds n n' d n'')
  then show ?case using node_move_inv[OF sep] by blast
qed

section \<open>The values offered to consensus\<close>

text \<open>
  \<open>values_inv m n\<close>: the builder has had \<open>m\<close> values accepted, and the values on their way to consensus
  (proposed and waiting in the network, then offered and waiting in the channel) are some of them, in
  the order of their identifiers.
\<close>

definition waiting_values :: "('tx, 'cs, 'db) node \<Rightarrow> 'tx BaseValue list" where
  "waiting_values n =
     proposed_values (items (network (world (chain_sys n)))) @ items (proposals (world (chain_sys n)))"

definition values_inv :: "nat \<Rightarrow> ('tx, 'cs, 'db) node \<Rightarrow> bool" where
  "values_inv m n \<longleftrightarrow>
     builder_ok m (block_builder n) \<and> subseq (map value_id_u64 (waiting_values n)) (map of_nat [0..<m])"

lemma launched_values: "values_inv 0 (launched E rng lib init events)"
  by (auto simp: values_inv_def waiting_values_def launched_def builder_ok_def builder_new_def started_system_def
      Let_def new_channel_def proposed_values_def start_envelope_def)

lemma subseq_map: "subseq xs ys \<Longrightarrow> subseq (map f xs) (map f ys)"
  by (induction rule: list_emb.induct) auto

lemma consensus_values:
  assumes inv: "sim_inv 4 s" and run: "sim_step oc E lib s = Some (Ran r s')"
  shows "subseq (proposed_values (items (network (world s'))) @ items (proposals (world s')))
    (proposed_values (items (network (world s))) @ items (proposals (world s)))"
proof -
  obtain e rest es k where *: "items (network (world s)) = e # rest" "items (network (world s')) = rest @ es"
      "items (proposals (world s')) = drop k (items (proposals (world s)))"
      "subseq (proposed_values es) (take k (items (proposals (world s))))"
    using inv run by (rule sim_step_Ran)
  have "subseq (proposed_values es @ drop k (items (proposals (world s))))
      (take k (items (proposals (world s))) @ drop k (items (proposals (world s))))"
    using *(4) by (intro list_emb_append_mono) simp_all
  then have "subseq (proposed_values rest @ proposed_values es @ drop k (items (proposals (world s))))
      (proposed_values rest @ items (proposals (world s)))"
    by (intro list_emb_append_mono) simp_all
  moreover have "proposed_values (e # rest) = proposed_values [e] @ proposed_values rest"
    using proposed_values_append(1)[of "[e]" rest] by simp
  ultimately show ?thesis unfolding * by (simp add: list_emb_append2)
qed

lemma offer_values:
  assumes inv: "builder_ok m b" and run: "builder_send oc b ch = (Inr b', ch')"
  obtains "ch' = ch" "builder_ok m b'"
  | v where "items ch' = items ch @ [v]" "value_id_u64 v = of_nat m" "builder_ok (Suc m) b'"
  using builder_send_ok[OF inv run] inv by blast

lemma node_move_values:
  assumes "node_move oc E lib R X spec d n n'" and inv: "sim_inv 4 (chain_sys n)" and vals: "values_inv m n"
  shows "\<exists>m'. values_inv m' n'"
  using assms(1)
proof cases
  case (consensus s')
  from consensus_values[OF inv consensus(3)] have "subseq (map value_id_u64 (waiting_values n')) (map value_id_u64 (waiting_values n))"
    unfolding waiting_values_def consensus(2) by (intro subseq_map) simp
  with vals consensus(2) show ?thesis unfolding values_inv_def by (auto intro: subseq_order.order_trans)
next
  case (collect txs)
  with vals builder_collect_ok show ?thesis by (fastforce simp: values_inv_def waiting_values_def)
next
  case (offer b ch)
  have ok: "builder_ok m (block_builder n)" using vals by (simp add: values_inv_def)
  from ok offer(3) show ?thesis
  proof (cases rule: offer_values)
    case 1
    with offer vals show ?thesis by (auto simp: values_inv_def waiting_values_def)
  next
    case (2 v)
    have "subseq (map value_id_u64 (waiting_values n) @ [of_nat m]) (map of_nat [0..<m] @ [of_nat m])"
      using vals by (intro list_emb_append_mono) (simp_all add: values_inv_def)
    with 2 offer have "values_inv (Suc m) n'" by (simp add: values_inv_def waiting_values_def)
    then show ?thesis ..
  qed
qed (use vals in \<open>auto simp: values_inv_def waiting_values_def\<close>)

lemma node_run_values:
  assumes "node_run oc E lib R X spec ds n n'" and "sim_inv 4 (chain_sys n)" and "values_inv m n"
  shows "sim_inv 4 (chain_sys n') \<and> (\<exists>m'. values_inv m' n')"
  using assms
proof (induction rule: node_run.induct)
  case (none n)
  then show ?case by auto
next
  case (move ds n n' d n'')
  then show ?case using node_move_sim[OF move.hyps(2)] node_move_values[OF move.hyps(2)] by blast
qed

section \<open>Catching up\<close>

lemma node_run_step:
  "node_run oc E lib R X spec ds n0 n \<Longrightarrow> node_move oc E lib R X spec d n n' \<Longrightarrow> ds' = ds @ d \<Longrightarrow>
     node_run oc E lib R X spec ds' n0 n'"
  by (simp add: node_run.move)

text \<open>The consumer can handle the decision steps that are waiting, one after the other.\<close>

lemma node_consumes:
  assumes "items (decision_steps (world (chain_sys n))) = pending @ rest"
    and "foreach pending consumer_handle \<lparr>decisions = consumed n, to_task = chain_rx (task n)\<rparr> = (Inr (), c)"
    and "node_run oc E lib R X spec ds n0 n"
  shows "\<exists>n'. node_run oc E lib R X spec (ds @ pending) n0 n' \<and> consumed n' = decisions c \<and>
    task n' = (task n)\<lparr>chain_rx := to_task c\<rparr> \<and> items (decision_steps (world (chain_sys n'))) = rest"
  using assms
proof (induction pending arbitrary: n ds)
  case Nil
  then show ?case by (intro exI[of _ n]) (auto simp: act_simps)
next
  case (Cons d pending)
  obtain c1 where one: "consumer_handle d \<lparr>decisions = consumed n, to_task = chain_rx (task n)\<rparr> = (Inr (), c1)"
    and more: "foreach pending consumer_handle c1 = (Inr (), c)"
    using Cons.prems(2) by (auto simp: act_simps split: prod.splits sum.splits)
  let ?ch = "(decision_steps (world (chain_sys n)))\<lparr>items := pending @ rest\<rparr>"
  let ?n = "n\<lparr>chain_sys := (chain_sys n)\<lparr>world := (world (chain_sys n))\<lparr>decision_steps := ?ch\<rparr>\<rparr>,
              consumed := decisions c1, task := (task n)\<lparr>chain_rx := to_task c1\<rparr>\<rparr>"
  have "node_move oc E lib R X spec [d] n ?n"
    by (rule node_move.consume[OF _ one]) (use Cons.prems(1) in simp)
  then have run: "node_run oc E lib R X spec (ds @ [d]) n0 ?n"
    by (rule node_run.move[OF Cons.prems(3)])
  have "c1 = \<lparr>decisions = decisions c1, to_task = to_task c1\<rparr>" by simp
  with Cons.IH[of ?n "ds @ [d]"] run more show ?case by simp
qed

lemma consumer_from:
  assumes "rx_alive tt" and "announced (ds @ pending)"
  shows "foreach pending consumer_handle \<lparr>decisions = first_proposed ds, to_task = tt\<rparr> =
    (Inr (), \<lparr>decisions = first_proposed (ds @ pending),
              to_task = tt\<lparr>items := items tt @ drop (length (relayed ds)) (relayed (ds @ pending))\<rparr>\<rparr>)"
  using assms
proof (induction pending arbitrary: ds tt)
  case Nil
  then show ?case by (simp add: act_simps)
next
  case (Cons d pending)
  have ann: "announced ((ds @ [d]) @ pending)" using Cons.prems(2) by simp
  then have "announced (ds @ [d])" by (rule announced_append)
  then have one: "consumer_handle d \<lparr>decisions = first_proposed ds, to_task = tt\<rparr> =
      (Inr (), \<lparr>decisions = first_proposed (ds @ [d]), to_task = tt\<lparr>items := items tt @ relay_of ds d\<rparr>\<rparr>)"
    using Cons.prems(1) by (auto simp: consumer_step announced_snoc)
  have more: "\<exists>xs. relayed ((ds @ [d]) @ pending) = relayed (ds @ [d]) @ xs"
    by (rule relayed_append)
  have "relayed (ds @ [d]) = relayed ds @ relay_of ds d" by (simp add: relayed_snoc relay_of_def)
  then show ?case
    using Cons.IH[of "tt\<lparr>items := items tt @ relay_of ds d\<rparr>" "ds @ [d]"] Cons.prems(1) ann one more
    by (auto simp: act_simps)
qed

text \<open>
  From a state in which the task is idle, a run with a responsive environment handles the waiting
  decision steps and executes all the work there is.
\<close>

lemma node_catch_up:
  assumes run: "node_run oc E lib R X spec ds n0 n" and inv: "node_inv R init ds n" and sep: "hash_separates R init"
    and pending: "items (decision_steps (world (chain_sys n))) = pending" and ann: "announced (ds @ pending)"
    and room: "unat (number (header_of init)) + length (relayed (ds @ pending)) < 2 ^ 64"
    and idle: "insert_task (task n) = None" "lock_polls (task n) = []" "fcu_polls (task n) = []"
    and env: "builds oc R X spec env"
  shows "\<exists>n' bs new. node_run oc E lib R X spec (ds @ pending) n0 n' \<and> work (task n') = [] \<and>
    chain_repr R init bs (storage (task n)) \<and> chain_repr R init (bs @ new) (storage (task n')) \<and>
    blocks_txs new = work (task n) @ drop (length (relayed ds)) (relayed (ds @ pending)) \<and>
    log (task n') = log (task n) @ concat (map (block_events R) new)"
proof -
  let ?tt = "chain_rx (task n)"
  let ?xs = "drop (length (relayed ds)) (relayed (ds @ pending))"
  have alive: "rx_alive ?tt" "tx_alive ?tt" and cons: "consumed n = first_proposed ds"
    using inv by (simp_all add: node_inv_def)
  obtain n1 where n1: "node_run oc E lib R X spec (ds @ pending) n0 n1"
      "task n1 = (task n)\<lparr>chain_rx := ?tt\<lparr>items := items ?tt @ ?xs\<rparr>\<rparr>"
    using node_consumes[of n pending "[]"] consumer_from[OF alive(1) ann] pending run cons by fastforce
  have rel: "relayed (ds @ pending) = relayed ds @ ?xs" using relayed_append[of ds pending] by auto
  have "length (relayed ds) \<le> length (relayed (ds @ pending))" using relayed_append[of ds pending] by auto
  then have "unat (number (header_of init)) + length (relayed ds) < 2 ^ 64" using room by linarith
  then obtain bs where bs: "exec_inv R init (relayed ds) bs (task n)" using inv by (auto simp: node_inv_def)
  have inv1: "task_inv R init bs (task n1)"
    using exec_inv_relay[OF bs, of ?xs] room rel n1(2) by (simp add: exec_inv_def)
  let ?m = "length (work (task n1))"
  let ?t = "(task n1)\<lparr>lock_polls := lock_polls (task n1) @ map LockAcquired (replicate ?m env),
                      fcu_polls := fcu_polls (task n1) @ replicate ?m (RxReply FcuValid)\<rparr>"
  have run2: "node_run oc E lib R X spec (ds @ pending) n0 (n1\<lparr>task := ?t\<rparr>)"
    using node_run.move[OF n1(1) node_move.answers] by simp
  have w: "work ?t = work (task n1)" "work (task n1) = work (task n) @ ?xs"
    using n1(2) by (simp_all add: work_def)
  have inv2: "task_inv R init bs ?t" using inv1 w(1) by (simp add: task_inv_def)
  obtain t' new where t': "task_poll oc R X spec ?t = (Inr (), t')" "work t' = []" "task_inv R init (bs @ new) t'"
      "blocks_txs new = work ?t" "log t' = log ?t @ concat (map (block_events R) new)"
    using task_poll_completes[OF inv2 sep, of "replicate ?m env" "[]" "[]" oc X spec] idle n1(2) alive env w by auto
  have "node_run oc E lib R X spec (ds @ pending) n0 (n1\<lparr>task := ?t\<rparr>\<lparr>task := t'\<rparr>)"
    by (rule node_run_step[OF run2 node_move.execute]) (use t'(1) in simp_all)
  moreover have "chain_repr R init bs (storage (task n))" using bs by (simp add: exec_inv_def task_inv_def)
  ultimately show ?thesis
    using t' w n1(2)
    by (intro exI[of _ "n1\<lparr>task := ?t\<rparr>\<lparr>task := t'\<rparr>"] exI[of _ bs] exI[of _ new]) (simp add: task_inv_def)
qed

section \<open>A concrete node\<close>

text \<open>
  A library that publishes a proposal with one transaction as soon as a height starts and then
  decides it.
\<close>

definition toy_sp :: "BaseHeight \<Rightarrow> nat BaseProposal SignedMessage" where
  "toy_sp h =
     \<lparr>message = new_proposal h (RoundSome 0) \<lparr>value_id_u64 = 0, transactions = [42]\<rparr> RoundNil (BasePeerAddress 0),
      signature = Signature []\<rparr>"

definition deciding_lib :: "(nat, Params) consensus_lib" where
  "deciding_lib =
     \<lparr>state_new = (\<lambda>ctx p. p), state_params = (\<lambda>s. s), state_ctx = (\<lambda>s. toy_ctx),
      process_input = (\<lambda>i s. case i of
          StartHeight h vs \<Rightarrow>
            Yield (Publish (SignedProposal (toy_sp h)))
              (\<lambda>a. Yield (Decide \<lparr>cert_height = h, cert_value_id = BaseValueId 0\<rparr>) (\<lambda>a. Complete (Inr ()) s))
        | _ \<Rightarrow> Complete (Inr ()) s)\<rparr>"

lemma deciding_lib_keeps: "lib_keeps_params deciding_lib"
  by (simp add: lib_keeps_params_def deciding_lib_def)

definition toy_node :: "(nat, Params, unit) node" where
  "toy_node = launched toy_ed25519 [] deciding_lib toy_genesis 3"

lemma toy_node_launch: "launch toy_ed25519 [] deciding_lib (Inr None) toy_genesis 3 = Inr toy_node"
  by (simp add: launch_ok[OF deciding_lib_keeps] toy_node_def initial_header_def)

definition toy_steps :: "nat DecisionStep list" where
  "toy_steps = replicate 4 (Proposed (proposed_value_of (toy_sp (BaseHeight 0)))) @
     [Finalized \<lparr>dec_peer = BasePeerAddress 0, dec_value_id = BaseValueId 0, dec_height = BaseHeight 0\<rparr>]"

lemma toy_steps_relayed: "announced toy_steps" "relayed toy_steps = [[42]]"
  by (auto simp: toy_steps_def announced_def relayed_def peer0_final_def first_proposed_def proposed_at_def
      step_value_def step_height_def proposed_value_of_def toy_sp_def new_proposal_def Let_def less_Suc_eq upt_rec
      numeral_eq_Suc)

lemma toy_drive:
  assumes "params_address p = BasePeerAddress 0" and "rx_alive (network w)" and "rx_alive (decision_steps w)"
    and "count (initial_validator_set p) = 4"
  shows "\<exists>w'. apply_input True toy_ed25519 deciding_lib \<lparr>peer_id = BasePeerAddress 0\<rparr> (StartHeight (BaseHeight 0) vs) p st ctx w
      = Some (Inr (Inr (), st), w') \<and> items (decision_steps w') = items (decision_steps w) @ toy_steps"
  using assms
  by (simp add: apply_input_def deciding_lib_def drive_Yield handle_effect_def handle_publish_def handle_decide_def
      act_simps publish_proposal_loop increment_def increment_by_def checked_plus_def Let_def toy_steps_def count_def)
    (simp add: push_network_def push_decisions_def)

text \<open>The first step after the launch: peer 0 starts height 0.\<close>

lemma first_step:
  assumes s_def: "s = started_system E rng lib 4 new_channel"
  obtains p w vs where "params_address p = BasePeerAddress 0" "count (initial_validator_set p) = 4"
    "rx_alive (network w)" "rx_alive (decision_steps w)" "items (decision_steps w) = []" "items (proposals w) = []"
    "sim_step oc E lib s = map_option (after_input 0 s)
       (apply_input oc E lib \<lparr>peer_id = BasePeerAddress 0\<rparr> (StartHeight (BaseHeight 0) vs) p (states s ! 0)
          (state_ctx lib (states s ! 0)) w)"
proof -
  let ?vs = "BasePeerSet_new 4 (shared_public_key E (BaseContext_new E rng))"
  have net: "items (network (world s)) = start_envelope ?vs (BasePeerAddress 0)
      # map (start_envelope ?vs) [BasePeerAddress 1, BasePeerAddress 2, BasePeerAddress 3]" (is "_ = ?e # ?rest")
    by (simp add: s_def started_system_def Let_def upt_rec)
  let ?w = "(world s)\<lparr>network := (network (world s))\<lparr>items := ?rest\<rparr>\<rparr>"
  have inv: "sim_inv 4 s" unfolding s_def by (rule started_inv)
  obtain p where p: "sim_params (sim s) (destination ?e) = Some p" "params_address p = destination ?e"
    and step: "sim_step oc E lib s =
       map_option (after_input (unat (addr_u32 (destination ?e))) s)
         (apply_input oc E lib \<lparr>peer_id = destination ?e\<rparr> (payload ?e) p
            (states s ! unat (addr_u32 (destination ?e)))
            (state_ctx lib (states s ! unat (addr_u32 (destination ?e)))) ?w)"
    using inv net by (rule sim_step_inv_cases)
  have "count (initial_validator_set p) = 4"
    using p(1) by (auto simp: s_def started_system_def Let_def new_params_def count_def start_envelope_def split: if_splits)
  moreover have "rx_alive (network ?w)" "rx_alive (decision_steps ?w)" "items (decision_steps ?w) = []"
      "items (proposals ?w) = []"
    by (simp_all add: s_def started_system_def Let_def new_channel_def)
  ultimately show thesis
    using that[of p ?w ?vs] p(2) step by (simp add: start_envelope_def)
qed

lemma toy_node_decides:
  "\<exists>n. node_run True toy_ed25519 deciding_lib R X spec [] toy_node n \<and> task n = task toy_node \<and>
     items (decision_steps (world (chain_sys n))) = toy_steps"
proof -
  have s: "chain_sys toy_node = started_system toy_ed25519 [] deciding_lib 4 new_channel"
    by (simp add: toy_node_def launched_def)
  obtain p w vs where w: "params_address p = BasePeerAddress 0" "count (initial_validator_set p) = 4"
    "rx_alive (network w)" "rx_alive (decision_steps w)" "items (decision_steps w) = []" "items (proposals w) = []"
    and step: "sim_step True toy_ed25519 deciding_lib (chain_sys toy_node) = map_option (after_input 0 (chain_sys toy_node))
       (apply_input True toy_ed25519 deciding_lib \<lparr>peer_id = BasePeerAddress 0\<rparr> (StartHeight (BaseHeight 0) vs) p
          (states (chain_sys toy_node) ! 0) (state_ctx deciding_lib (states (chain_sys toy_node) ! 0)) w)"
    using s by (rule first_step)
  obtain s' where run: "sim_step True toy_ed25519 deciding_lib (chain_sys toy_node) = Some (Ran (Inr ()) s')"
      "items (decision_steps (world s')) = toy_steps"
    using toy_drive[OF w(1,3,4,2), of vs "states (chain_sys toy_node) ! 0" "state_ctx deciding_lib (states (chain_sys toy_node) ! 0)"]
      w(5) step by (auto simp: after_input_def)
  have "node_run True toy_ed25519 deciding_lib R X spec [] toy_node (toy_node\<lparr>chain_sys := s'\<rparr>)"
    by (rule node_run_step[OF node_run.none node_move.consensus[OF run(1)]]) simp
  with run(2) show ?thesis by (intro exI[of _ "toy_node\<lparr>chain_sys := s'\<rparr>"]) simp
qed

lemma toy_node_idle:
  "insert_task (task toy_node) = None" "lock_polls (task toy_node) = []" "fcu_polls (task toy_node) = []"
  "work (task toy_node) = []" "log (task toy_node) = []"
  by (simp_all add: toy_node_def launched_def work_def new_channel_def)

text \<open>The concrete node executes the block that was decided.\<close>

lemma toy_node_executes:
  "\<exists>n new. node_run True toy_ed25519 deciding_lib toy_reth toy_executor (toy_spec False) toy_steps toy_node n \<and>
     blocks_txs new = [[42 :: nat]] \<and> log (task n) = concat (map (block_events toy_reth) new)"
proof -
  obtain n where n: "node_run True toy_ed25519 deciding_lib toy_reth toy_executor (toy_spec False) [] toy_node n"
    "task n = task toy_node" "items (decision_steps (world (chain_sys n))) = toy_steps"
    using toy_node_decides by blast
  have inv: "node_inv toy_reth toy_genesis [] n"
    using node_run_inv[OF toy_separates n(1)] launched_inv unfolding toy_node_def by blast
  have rel: "relayed [] = ([] :: nat list list)" by (simp add: relayed_def)
  have "unat (number (header_of toy_genesis)) + length (relayed ([] @ toy_steps)) < 2 ^ 64"
    by (simp add: toy_steps_relayed toy_genesis_def blank_header_def)
  then show ?thesis
    using node_catch_up[OF n(1) inv toy_separates n(3) _ _ _ _ _ toy_builds] toy_steps_relayed toy_node_idle n(2) rel
    by auto
qed

end
