(* ===== verification/Node_Failures.thy ===== *)
theory Node_Failures
  imports Node
begin

text \<open>
  The node beyond the first panic. The four threads that the node consists of end independently:
  the chain (\<open>spawn_blocking\<close> in \<open>launcher.rs\<close>), the block builder (\<open>tokio::spawn\<close> in \<open>chain.rs\<close>), the
  consumer (\<open>spawn_critical_blocking\<close>) and the task (\<open>spawn_critical\<close>). Nothing joins them: \<open>main\<close> drops
  the exit future and does not await the task manager, so the others go on. What they notice is that
  the channel ends the thread owned are dropped.

  \<open>process\<close> is the node with the status of every thread, \<open>process_move\<close> one move of one of them: the
  moves of \<open>node_move\<close> by a running thread, the panics, and the consumer's regular end. A dead
  thread's data stays in the record as it was; nothing reads it. Moves carry labels, so that a
  run is the explicit sequence of what the threads did.
\<close>

section \<open>Threads that can end\<close>

datatype thread_status = Running | Returned | Crashed panic

datatype thread = ChainThread | BuilderThread | ConsumerThread | TaskThread

record ('tx, 'cs, 'db) process =
  parts :: "('tx, 'cs, 'db) node"
  chain_status :: thread_status
  builder_status :: thread_status
  consumer_status :: thread_status
  task_status :: thread_status

definition started :: "('tx, 'cs, 'db) node \<Rightarrow> ('tx, 'cs, 'db) process" where
  "started n = \<lparr>parts = n, chain_status = Running, builder_status = Running, consumer_status = Running,
     task_status = Running\<rparr>"

abbreviation chan_decisions :: "('tx, 'cs, 'db) process \<Rightarrow> 'tx DecisionStep channel" where
  "chan_decisions p \<equiv> decision_steps (world (chain_sys (parts p)))"

abbreviation chan_proposals :: "('tx, 'cs, 'db) process \<Rightarrow> 'tx BaseValue channel" where
  "chan_proposals p \<equiv> proposals (world (chain_sys (parts p)))"

abbreviation chan_blocks :: "('tx, 'cs, 'db) process \<Rightarrow> 'tx list channel" where
  "chan_blocks p \<equiv> chain_rx (task (parts p))"

text \<open>
  The ends that a thread drops. The simulator and its applications own all the senders of the
  decision steps and all the receivers of the proposals; the builder owns the sender of the
  proposals; the consumer the receiver of the decision steps and the sender of the blocks; the task
  the receiver of the blocks.
\<close>

definition drop_chain :: "('tx, 'cs, 'db) node \<Rightarrow> ('tx, 'cs, 'db) node" where
  "drop_chain n = n\<lparr>chain_sys := (chain_sys n)\<lparr>world := (world (chain_sys n))
     \<lparr>decision_steps := (decision_steps (world (chain_sys n)))\<lparr>tx_alive := False\<rparr>,
      proposals := (proposals (world (chain_sys n)))\<lparr>rx_alive := False\<rparr>\<rparr>\<rparr>\<rparr>"

definition drop_builder :: "('tx, 'cs, 'db) node \<Rightarrow> ('tx, 'cs, 'db) node" where
  "drop_builder n = n\<lparr>chain_sys := (chain_sys n)\<lparr>world := (world (chain_sys n))
     \<lparr>proposals := (proposals (world (chain_sys n)))\<lparr>tx_alive := False\<rparr>\<rparr>\<rparr>\<rparr>"

definition drop_consumer :: "('tx, 'cs, 'db) node \<Rightarrow> ('tx, 'cs, 'db) node" where
  "drop_consumer n = n\<lparr>chain_sys := (chain_sys n)\<lparr>world := (world (chain_sys n))
     \<lparr>decision_steps := (decision_steps (world (chain_sys n)))\<lparr>rx_alive := False\<rparr>\<rparr>\<rparr>,
      task := (task n)\<lparr>chain_rx := (chain_rx (task n))\<lparr>tx_alive := False\<rparr>\<rparr>\<rparr>"

definition drop_task :: "('tx, 'cs, 'db) node \<Rightarrow> ('tx, 'cs, 'db) node" where
  "drop_task n = n\<lparr>task := (task n)\<lparr>chain_rx := (chain_rx (task n))\<lparr>rx_alive := False\<rparr>\<rparr>\<rparr>"

lemmas drop_defs = drop_chain_def drop_builder_def drop_consumer_def drop_task_def

section \<open>Moves\<close>

datatype 'tx move_label =
    Works thread \<comment> \<open>a thread moves on\<close>
  | Handles "'tx DecisionStep" \<comment> \<open>the consumer handles a decision step\<close>
  | Answers \<comment> \<open>the environment answers\<close>
  | Ends thread \<comment> \<open>a thread returns\<close>
  | Panics thread panic

inductive process_move ::
  "bool \<Rightarrow> ed25519 \<Rightarrow> ('tx, 'cs) consensus_lib \<Rightarrow> 'tx reth \<Rightarrow> ('tx, 'db, 'st, 'r) executor \<Rightarrow> ChainSpec
     \<Rightarrow> 'tx move_label \<Rightarrow> ('tx, 'cs, 'db) process \<Rightarrow> ('tx, 'cs, 'db) process \<Rightarrow> bool"
  for oc E lib R X spec where
  chain_steps: "chain_status p = Running \<Longrightarrow> sim_step oc E lib (chain_sys (parts p)) = Some (Ran (Inr ()) s') \<Longrightarrow>
    process_move oc E lib R X spec (Works ChainThread) p (p\<lparr>parts := (parts p)\<lparr>chain_sys := s'\<rparr>\<rparr>)"
| chain_panics: "chain_status p = Running \<Longrightarrow> sim_step oc E lib (chain_sys (parts p)) = Some (Ran (Inl e) s') \<Longrightarrow>
    process_move oc E lib R X spec (Panics ChainThread e) p
      (p\<lparr>parts := drop_chain ((parts p)\<lparr>chain_sys := s'\<rparr>), chain_status := Crashed e\<rparr>)"
| builder_collects: "builder_status p = Running \<Longrightarrow>
    process_move oc E lib R X spec (Works BuilderThread) p
      (p\<lparr>parts := (parts p)\<lparr>block_builder := builder_collect txs (block_builder (parts p))\<rparr>\<rparr>)"
| builder_offers: "builder_status p = Running \<Longrightarrow>
    builder_send oc (block_builder (parts p)) (chan_proposals p) = (Inr b, ch) \<Longrightarrow>
    process_move oc E lib R X spec (Works BuilderThread) p
      (p\<lparr>parts := (parts p)\<lparr>block_builder := b,
         chain_sys := (chain_sys (parts p))\<lparr>world := (world (chain_sys (parts p)))\<lparr>proposals := ch\<rparr>\<rparr>\<rparr>\<rparr>)"
| builder_panics: "builder_status p = Running \<Longrightarrow>
    builder_send oc (block_builder (parts p)) (chan_proposals p) = (Inl e, ch) \<Longrightarrow>
    process_move oc E lib R X spec (Panics BuilderThread e) p
      (p\<lparr>parts := drop_builder ((parts p)\<lparr>
           chain_sys := (chain_sys (parts p))\<lparr>world := (world (chain_sys (parts p)))\<lparr>proposals := ch\<rparr>\<rparr>\<rparr>),
         builder_status := Crashed e\<rparr>)"
| consumer_handles: "consumer_status p = Running \<Longrightarrow> chan_recv (chan_decisions p) = (Item d, ch) \<Longrightarrow>
    consumer_handle d \<lparr>decisions = consumed (parts p), to_task = chan_blocks p\<rparr> = (Inr (), c) \<Longrightarrow>
    process_move oc E lib R X spec (Handles d) p
      (p\<lparr>parts := (parts p)\<lparr>
         chain_sys := (chain_sys (parts p))\<lparr>world := (world (chain_sys (parts p)))\<lparr>decision_steps := ch\<rparr>\<rparr>,
         consumed := decisions c, task := (task (parts p))\<lparr>chain_rx := to_task c\<rparr>\<rparr>\<rparr>)"
| consumer_panics: "consumer_status p = Running \<Longrightarrow> chan_recv (chan_decisions p) = (Item d, ch) \<Longrightarrow>
    consumer_handle d \<lparr>decisions = consumed (parts p), to_task = chan_blocks p\<rparr> = (Inl e, c) \<Longrightarrow>
    process_move oc E lib R X spec (Panics ConsumerThread e) p
      (p\<lparr>parts := drop_consumer ((parts p)\<lparr>
           chain_sys := (chain_sys (parts p))\<lparr>world := (world (chain_sys (parts p)))\<lparr>decision_steps := ch\<rparr>\<rparr>\<rparr>),
         consumer_status := Crashed e\<rparr>)"
| consumer_stops: "consumer_status p = Running \<Longrightarrow> chan_recv (chan_decisions p) = (Disconnected, ch) \<Longrightarrow>
    process_move oc E lib R X spec (Ends ConsumerThread) p
      (p\<lparr>parts := drop_consumer (parts p), consumer_status := Returned\<rparr>)"
| task_polls: "task_status p = Running \<Longrightarrow> task_poll oc R X spec (task (parts p)) = (Inr (), t) \<Longrightarrow>
    process_move oc E lib R X spec (Works TaskThread) p (p\<lparr>parts := (parts p)\<lparr>task := t\<rparr>\<rparr>)"
| task_panics: "task_status p = Running \<Longrightarrow> task_poll oc R X spec (task (parts p)) = (Inl e, t) \<Longrightarrow>
    process_move oc E lib R X spec (Panics TaskThread e) p
      (p\<lparr>parts := drop_task ((parts p)\<lparr>task := t\<rparr>), task_status := Crashed e\<rparr>)"
| answers: "process_move oc E lib R X spec Answers p
      (p\<lparr>parts := (parts p)\<lparr>task := (task (parts p))
         \<lparr>lock_polls := lock_polls (task (parts p)) @ ls, fcu_polls := fcu_polls (task (parts p)) @ fs\<rparr>\<rparr>\<rparr>)"

text \<open>A run, with the labels of its moves in order.\<close>

inductive process_run ::
  "bool \<Rightarrow> ed25519 \<Rightarrow> ('tx, 'cs) consensus_lib \<Rightarrow> 'tx reth \<Rightarrow> ('tx, 'db, 'st, 'r) executor \<Rightarrow> ChainSpec
     \<Rightarrow> 'tx move_label list \<Rightarrow> ('tx, 'cs, 'db) process \<Rightarrow> ('tx, 'cs, 'db) process \<Rightarrow> bool"
  for oc E lib R X spec where
  none: "process_run oc E lib R X spec [] p p"
| move: "process_run oc E lib R X spec tr p p' \<Longrightarrow> process_move oc E lib R X spec l p' p'' \<Longrightarrow>
    process_run oc E lib R X spec (tr @ [l]) p p''"

text \<open>The decision steps that were handled in a run.\<close>

definition label_steps :: "'tx move_label \<Rightarrow> 'tx DecisionStep list" where
  "label_steps l = (case l of Handles d \<Rightarrow> [d] | _ \<Rightarrow> [])"

definition handled :: "'tx move_label list \<Rightarrow> 'tx DecisionStep list" where
  "handled tr = concat (map label_steps tr)"

lemma label_steps_simps [simp]:
  "label_steps (Handles d) = [d]" "label_steps (Works t) = []" "label_steps Answers = []"
  "label_steps (Ends t) = []" "label_steps (Panics t e) = []"
  by (simp_all add: label_steps_def)

lemma handled_simps [simp]: "handled [] = []" "handled (tr @ [l]) = handled tr @ label_steps l"
  by (simp_all add: handled_def)

section \<open>The invariant\<close>

text \<open>The channel ends are alive exactly as long as their owners run.\<close>

definition ends_inv :: "('tx, 'cs, 'db) process \<Rightarrow> bool" where
  "ends_inv p \<longleftrightarrow>
     (tx_alive (chan_decisions p) \<longleftrightarrow> chain_status p = Running) \<and>
     (rx_alive (chan_proposals p) \<longleftrightarrow> chain_status p = Running) \<and>
     (tx_alive (chan_proposals p) \<longleftrightarrow> builder_status p = Running) \<and>
     (rx_alive (chan_decisions p) \<longleftrightarrow> consumer_status p = Running) \<and>
     (tx_alive (chan_blocks p) \<longleftrightarrow> consumer_status p = Running) \<and>
     (rx_alive (chan_blocks p) \<longleftrightarrow> task_status p = Running)"

definition process_inv ::
  "'tx reth \<Rightarrow> SealedHeader \<Rightarrow> 'tx DecisionStep list \<Rightarrow> ('tx, 'cs, 'db) process \<Rightarrow> bool" where
  "process_inv R init ds p \<longleftrightarrow>
     sim_inv 4 (chain_sys (parts p)) \<and> ends_inv p \<and>
     announced ds \<and> consumed (parts p) = first_proposed ds \<and>
     (unat (number (header_of init)) + length (relayed ds) < 2 ^ 64 \<longrightarrow>
        (\<exists>bs. exec_inv R init (relayed ds) bs (task (parts p))))"

lemma started_process_inv:
  "process_inv R init [] (started (launched E rng lib init events))"
proof -
  have "process_inv R init [] (started n)" if "node_inv R init [] n" "ends_inv (started n)"
    for n :: "('a, 'b, 'c) node"
    using that by (simp add: process_inv_def node_inv_def started_def)
  moreover have "ends_inv (started (launched E rng lib init events))"
    by (simp add: ends_inv_def started_def launched_def started_system_def new_channel_def Let_def)
  ultimately show ?thesis using launched_inv by blast
qed

lemma exec_inv_flags [simp]:
  "exec_inv R init rel bs (t\<lparr>chain_rx := (chain_rx t)\<lparr>rx_alive := a\<rparr>\<rparr>) = exec_inv R init rel bs t"
  "exec_inv R init rel bs (t\<lparr>chain_rx := (chain_rx t)\<lparr>tx_alive := a\<rparr>\<rparr>) = exec_inv R init rel bs t"
  by (simp_all add: exec_inv_def task_inv_def work_def)

lemma chan_recv_flags:
  "chan_recv ch = (r, ch') \<Longrightarrow> rx_alive ch' = rx_alive ch \<and> tx_alive ch' = tx_alive ch"
  by (auto simp: chan_recv_def split: list.splits if_splits)

text \<open>A step that the consumer handled, whether or not the task is still there.\<close>

lemma consumer_handled:
  assumes "consumer_handle d \<lparr>decisions = first_proposed ds, to_task = tt\<rparr> = (Inr (), c)"
  shows "(peer0_final d \<longrightarrow> first_proposed ds (step_height d) \<noteq> None) \<and>
    c = \<lparr>decisions = first_proposed (ds @ [d]), to_task = tt\<lparr>items := items tt @ relay_of ds d\<rparr>\<rparr>"
proof (cases "rx_alive tt")
  case True
  with assms show ?thesis by (auto simp: consumer_step split: if_splits)
next
  case False
  then have "consumer_handle d \<lparr>decisions = first_proposed ds, to_task = tt\<lparr>rx_alive := True\<rparr>\<rparr>
      = (Inr (), c\<lparr>to_task := (to_task c)\<lparr>rx_alive := True\<rparr>\<rparr>) \<and> \<not> peer0_final d"
    using assms by (auto simp: consumer_handle_def peer0_final_def split: DecisionStep.splits if_splits option.splits)
  then have "c\<lparr>to_task := (to_task c)\<lparr>rx_alive := True\<rparr>\<rparr>
      = \<lparr>decisions = first_proposed (ds @ [d]), to_task = tt\<lparr>rx_alive := True\<rparr>\<rparr>" and no: "\<not> peer0_final d"
    by (auto simp: consumer_step relay_of_def)
  moreover have "to_task c = tt"
    using assms False by (auto simp: consumer_handle_def split: DecisionStep.splits if_splits option.splits)
  ultimately show ?thesis using no by (cases c) (auto simp: relay_of_def)
qed

lemma builder_send_flags:
  "builder_send oc b ch = (r, ch') \<Longrightarrow> rx_alive ch' = rx_alive ch \<and> tx_alive ch' = tx_alive ch"
  by (auto simp: builder_send_def chan_send_bounded_def split: option.splits bounded_send.splits sum.splits if_splits)

lemma builder_send_sim:
  "builder_send oc b (proposals (world s)) = (r, ch) \<Longrightarrow> sim_inv sz s \<Longrightarrow>
     sim_inv sz (s\<lparr>world := (world s)\<lparr>proposals := ch\<rparr>\<rparr>)"
  by (simp add: sim_inv_def builder_send_world)

lemma sim_step_flags:
  assumes "sim_inv sz s" and "sim_step oc E lib s = Some (Ran r s')"
  shows "rx_alive (decision_steps (world s')) = rx_alive (decision_steps (world s)) \<and>
    tx_alive (decision_steps (world s')) = tx_alive (decision_steps (world s)) \<and>
    rx_alive (proposals (world s')) = rx_alive (proposals (world s)) \<and>
    tx_alive (proposals (world s')) = tx_alive (proposals (world s))"
  using assms
proof (rule sim_step_Ran)
qed auto

lemma sim_inv_channels [simp]:
  "sim_inv sz (s\<lparr>world := (world s)\<lparr>decision_steps := ch\<rparr>\<rparr>) = sim_inv sz s"
  by (simp add: sim_inv_def world_ok_def)

lemma drop_sim_inv [simp]:
  "sim_inv sz (chain_sys (drop_chain n)) = sim_inv sz (chain_sys n)"
  "sim_inv sz (chain_sys (drop_builder n)) = sim_inv sz (chain_sys n)"
  "sim_inv sz (chain_sys (drop_consumer n)) = sim_inv sz (chain_sys n)"
  "sim_inv sz (chain_sys (drop_task n)) = sim_inv sz (chain_sys n)"
  by (simp_all add: drop_defs sim_inv_def world_ok_def)

lemma drop_task_inv [simp]:
  "exec_inv R init rel bs (task (drop_chain n)) = exec_inv R init rel bs (task n)"
  "exec_inv R init rel bs (task (drop_builder n)) = exec_inv R init rel bs (task n)"
  "exec_inv R init rel bs (task (drop_consumer n)) = exec_inv R init rel bs (task n)"
  "exec_inv R init rel bs (task (drop_task n)) = exec_inv R init rel bs (task n)"
  "consumed (drop_chain n) = consumed n" "consumed (drop_builder n) = consumed n"
  "consumed (drop_consumer n) = consumed n" "consumed (drop_task n) = consumed n"
  by (simp_all add: drop_defs)

lemma process_move_sim:
  assumes "process_move oc E lib R X spec l p p'" and inv: "sim_inv 4 (chain_sys (parts p))"
  shows "sim_inv 4 (chain_sys (parts p'))"
  using assms(1)
proof cases
  case (chain_steps s')
  then show ?thesis using sim_step_Ran[OF inv chain_steps(4)] by simp
next
  case (chain_panics e s')
  then show ?thesis using sim_step_Ran[OF inv chain_panics(4)] by simp
next
  case (builder_offers b ch)
  then show ?thesis using builder_send_sim[OF builder_offers(4) inv] by simp
next
  case (builder_panics e ch)
  then show ?thesis using builder_send_sim[OF builder_panics(4) inv] by simp
qed (use inv in simp_all)

lemma process_move_ends:
  assumes "process_move oc E lib R X spec l p p'" and inv: "sim_inv 4 (chain_sys (parts p))" and ends: "ends_inv p"
  shows "ends_inv p'"
  using assms(1)
proof cases
  case (chain_steps s')
  then show ?thesis using ends sim_step_flags[OF inv chain_steps(4)] by (simp add: ends_inv_def)
next
  case (chain_panics e s')
  then show ?thesis using ends sim_step_flags[OF inv chain_panics(4)] by (simp add: ends_inv_def drop_chain_def)
next
  case (builder_offers b ch)
  then show ?thesis using ends builder_send_flags[OF builder_offers(4)] by (simp add: ends_inv_def)
next
  case (builder_panics e ch)
  then show ?thesis using ends builder_send_flags[OF builder_panics(4)] by (simp add: ends_inv_def drop_builder_def)
next
  case (consumer_handles d ch c)
  have "rx_alive (to_task c) = rx_alive (chan_blocks p) \<and> tx_alive (to_task c) = tx_alive (chan_blocks p)"
    using consumer_handles(5)
    by (auto simp: consumer_handle_def chan_send_def split: DecisionStep.splits if_splits option.splits)
  then show ?thesis using consumer_handles ends chan_recv_flags[OF consumer_handles(4)] by (simp add: ends_inv_def)
next
  case (consumer_panics d ch e c)
  then show ?thesis using ends chan_recv_flags[OF consumer_panics(4)] by (simp add: ends_inv_def drop_consumer_def)
next
  case (consumer_stops ch)
  then show ?thesis using ends by (simp add: ends_inv_def drop_consumer_def)
next
  case (task_polls t)
  then show ?thesis using ends task_poll_flags[OF task_polls(4)] by (simp add: ends_inv_def)
next
  case (task_panics e t)
  then show ?thesis using ends task_poll_flags[OF task_panics(4)] by (simp add: ends_inv_def drop_task_def)
qed (use ends in \<open>simp_all add: ends_inv_def\<close>)

lemma process_move_inv:
  assumes sep: "hash_separates R init" and "process_move oc E lib R X spec l p p'" and inv: "process_inv R init ds p"
  shows "process_inv R init (ds @ label_steps l) p'"
proof -
  have sim: "sim_inv 4 (chain_sys (parts p'))" and ends: "ends_inv p'"
    using process_move_sim[OF assms(2)] process_move_ends[OF assms(2)] inv by (auto simp: process_inv_def)
  show ?thesis
    using assms(2)
  proof cases
    case (consumer_handles d ch c)
    let ?tt = "chan_blocks p"
    have c: "peer0_final d \<longrightarrow> first_proposed ds (step_height d) \<noteq> None"
      "c = \<lparr>decisions = first_proposed (ds @ [d]), to_task = ?tt\<lparr>items := items ?tt @ relay_of ds d\<rparr>\<rparr>"
      using consumer_handles(5) inv consumer_handled[of d ds ?tt] by (auto simp: process_inv_def)
    have "relayed (ds @ [d]) = relayed ds @ relay_of ds d" by (simp add: relayed_snoc relay_of_def)
    then show ?thesis
      using consumer_handles inv sim ends c exec_inv_relay[of R init "relayed ds" _ "task (parts p)" "relay_of ds d"]
      by (auto simp: process_inv_def announced_snoc)
  next
    case (task_polls t)
    with inv sim ends show ?thesis using exec_inv_poll[OF _ sep task_polls(4)] by (auto simp: process_inv_def)
  next
    case (task_panics e t)
    with inv sim ends show ?thesis using exec_inv_poll[OF _ sep task_panics(4)] by (auto simp: process_inv_def)
  qed (use inv sim ends in \<open>auto simp: process_inv_def exec_inv_answers\<close>)
qed

lemma process_run_inv:
  assumes sep: "hash_separates R init" and "process_run oc E lib R X spec tr p p'" and "process_inv R init ds p"
  shows "process_inv R init (ds @ handled tr) p'"
  using assms(2,3)
proof (induction rule: process_run.induct)
  case (none p)
  then show ?case by simp
next
  case (move tr p p' l p'')
  then show ?case using process_move_inv[OF sep move.hyps(2)] by fastforce
qed

section \<open>How the end of one thread ends the others\<close>

definition thread_of :: "'tx move_label \<Rightarrow> thread option" where
  "thread_of l = (case l of Works t \<Rightarrow> Some t | Handles d \<Rightarrow> Some ConsumerThread | Answers \<Rightarrow> None
     | Ends t \<Rightarrow> Some t | Panics t e \<Rightarrow> Some t)"

definition moves_of :: "thread \<Rightarrow> 'tx move_label list \<Rightarrow> 'tx move_label list" where
  "moves_of t tr = filter (\<lambda>l. thread_of l = Some t) tr"

lemma thread_of_simps [simp]:
  "thread_of (Works t) = Some t" "thread_of (Handles d) = Some ConsumerThread" "thread_of Answers = None"
  "thread_of (Ends t) = Some t" "thread_of (Panics t e) = Some t"
  by (simp_all add: thread_of_def)

text \<open>What the consumer and the task can still do once their input is closed.\<close>

definition consumer_fuel :: "('tx, 'cs, 'db) process \<Rightarrow> nat" where
  "consumer_fuel p = (if consumer_status p = Running then length (items (chan_decisions p)) + 1 else 0)"

definition task_fuel :: "('tx, 'cs, 'db) process \<Rightarrow> nat" where
  "task_fuel p = (if task_status p = Running then length (items (chan_blocks p)) + 1 else 0)"

lemma consumer_fuel_move:
  assumes "process_move oc E lib R X spec l p p'" and "chain_status p \<noteq> Running"
  shows "consumer_fuel p' + (if thread_of l = Some ConsumerThread then 1 else 0) \<le> consumer_fuel p \<and>
    thread_of l \<noteq> Some ChainThread \<and> chain_status p' = chain_status p"
  using assms
proof cases
  case (consumer_handles d ch c)
  then show ?thesis by (auto simp: consumer_fuel_def chan_recv_def split: list.splits if_splits)
next
  case (consumer_panics d ch e c)
  then show ?thesis by (auto simp: consumer_fuel_def)
qed (simp_all add: consumer_fuel_def drop_defs)

lemma consumer_fuel_run:
  assumes "process_run oc E lib R X spec tr p p'" and "chain_status p \<noteq> Running"
  shows "consumer_fuel p' + length (moves_of ConsumerThread tr) \<le> consumer_fuel p \<and>
    moves_of ChainThread tr = [] \<and> chain_status p' = chain_status p"
  using assms
proof (induction rule: process_run.induct)
  case (none p)
  then show ?case by (simp add: moves_of_def)
next
  case (move tr p p' l p'')
  then show ?case
    using consumer_fuel_move[OF move.hyps(2)] by (auto simp: moves_of_def split: if_splits)
qed

lemma task_fuel_move:
  assumes "process_move oc E lib R X spec l p p'" and "consumer_status p \<noteq> Running" and ends: "ends_inv p"
  shows "task_fuel p' + (if thread_of l = Some TaskThread then 1 else 0) \<le> task_fuel p \<and>
    consumer_status p' = consumer_status p"
  using assms(1,2)
proof cases
  case (task_polls t)
  have closed: "\<not> tx_alive (chan_blocks p)" using ends assms(2) by (simp add: ends_inv_def)
  then have "items (chan_blocks p) \<noteq> []"
    using task_poll_closed(1)[OF closed, of oc R X spec] task_polls(4) by auto
  then show ?thesis using task_poll_closed(2)[OF closed _ task_polls(4)] task_polls by (simp add: task_fuel_def)
qed (simp_all add: task_fuel_def drop_defs)

lemma process_run_ends:
  assumes "process_run oc E lib R X spec tr p p'" and "sim_inv 4 (chain_sys (parts p))" and "ends_inv p"
  shows "sim_inv 4 (chain_sys (parts p')) \<and> ends_inv p'"
  using assms
proof (induction rule: process_run.induct)
  case (move tr p p' l p'')
  then show ?case using process_move_sim[OF move.hyps(2)] process_move_ends[OF move.hyps(2)] by blast
qed simp

lemma task_fuel_run:
  assumes "process_run oc E lib R X spec tr p p'" and "consumer_status p \<noteq> Running"
    and "sim_inv 4 (chain_sys (parts p))" and "ends_inv p"
  shows "task_fuel p' + length (moves_of TaskThread tr) \<le> task_fuel p \<and> consumer_status p' = consumer_status p"
  using assms
proof (induction rule: process_run.induct)
  case (none p)
  then show ?case by (simp add: moves_of_def)
next
  case (move tr p p' l p'')
  then show ?case
    using task_fuel_move[OF move.hyps(2)] process_run_ends[OF move.hyps(1)]
    by (auto simp: moves_of_def split: if_splits)
qed

text \<open>As long as they run, the consumer and the task can make a move.\<close>

lemma consumer_can_move:
  assumes "consumer_status p = Running" and "chain_status p \<noteq> Running" and "ends_inv p"
  shows "\<exists>l p'. process_move oc E lib R X spec l p p' \<and> thread_of l = Some ConsumerThread"
proof (cases rule: chan_recv_cases[of "chan_decisions p"])
  case (item d ch)
  obtain r c where handle: "consumer_handle d \<lparr>decisions = consumed (parts p), to_task = chan_blocks p\<rparr> = (r, c)"
    by fastforce
  show ?thesis
  proof (cases r)
    case (Inl e)
    with handle process_move.consumer_panics[OF assms(1) item(1)] thread_of_simps(5) show ?thesis by blast
  next
    case (Inr u)
    with handle process_move.consumer_handles[OF assms(1) item(1)] thread_of_simps(2) show ?thesis by fastforce
  qed
next
  case empty
  with assms(2,3) show ?thesis by (simp add: ends_inv_def)
next
  case disconnected
  with process_move.consumer_stops[OF assms(1)] thread_of_simps(4) show ?thesis by blast
qed

lemma task_can_move:
  assumes "task_status p = Running"
  shows "\<exists>l p'. process_move oc E lib R X spec l p p' \<and> thread_of l = Some TaskThread"
proof -
  obtain r t where poll: "task_poll oc R X spec (task (parts p)) = (r, t)" by fastforce
  show ?thesis
  proof (cases r)
    case (Inl e)
    with poll process_move.task_panics[OF assms] thread_of_simps(5) show ?thesis by blast
  next
    case (Inr u)
    with poll process_move.task_polls[OF assms] thread_of_simps(1) show ?thesis by fastforce
  qed
qed

text \<open>The storage is the task's alone: without the task it stays as it is.\<close>

lemma dead_task_run:
  assumes "process_run oc E lib R X spec tr p p'" and "task_status p \<noteq> Running"
  shows "task_status p' = task_status p \<and> storage (task (parts p')) = storage (task (parts p))"
  using assms
proof (induction rule: process_run.induct)
  case (move tr p p' l p'')
  then have "task_status p' \<noteq> Running" by simp
  with move.hyps(2) have "task_status p'' = task_status p' \<and> storage (task (parts p'')) = storage (task (parts p'))"
    by cases (simp_all add: drop_defs)
  with move show ?case by simp
qed simp

section \<open>A concrete failing node\<close>

text \<open>A run of the consumer over waiting decision steps.\<close>

lemma process_consumes:
  assumes "items (chan_decisions p) = pending @ rest"
    and "foreach pending consumer_handle \<lparr>decisions = consumed (parts p), to_task = chan_blocks p\<rparr> = (Inr (), c)"
    and "consumer_status p = Running" and "process_run oc E lib R X spec tr p0 p"
  shows "process_run oc E lib R X spec (tr @ map Handles pending) p0
    (p\<lparr>parts := (parts p)\<lparr>chain_sys := (chain_sys (parts p))\<lparr>world := (world (chain_sys (parts p)))
         \<lparr>decision_steps := (chan_decisions p)\<lparr>items := rest\<rparr>\<rparr>\<rparr>,
       consumed := decisions c, task := (task (parts p))\<lparr>chain_rx := to_task c\<rparr>\<rparr>\<rparr>)"
  using assms
proof (induction pending arbitrary: p tr)
  case Nil
  then show ?case by (auto simp: act_simps)
next
  case (Cons d pending)
  obtain c1 where one: "consumer_handle d \<lparr>decisions = consumed (parts p), to_task = chan_blocks p\<rparr> = (Inr (), c1)"
    and more: "foreach pending consumer_handle c1 = (Inr (), c)"
    using Cons.prems(2) by (auto simp: act_simps split: prod.splits sum.splits)
  let ?ch = "(chan_decisions p)\<lparr>items := pending @ rest\<rparr>"
  let ?p = "p\<lparr>parts := (parts p)\<lparr>
      chain_sys := (chain_sys (parts p))\<lparr>world := (world (chain_sys (parts p)))\<lparr>decision_steps := ?ch\<rparr>\<rparr>,
      consumed := decisions c1, task := (task (parts p))\<lparr>chain_rx := to_task c1\<rparr>\<rparr>\<rparr>"
  have "chan_recv (chan_decisions p) = (Item d, ?ch)" using Cons.prems(1) by simp
  from process_run.move[OF Cons.prems(4) process_move.consumer_handles[OF Cons.prems(3) this one]]
  have run: "process_run oc E lib R X spec (tr @ [Handles d]) p0 ?p" by simp
  have "c1 = \<lparr>decisions = decisions c1, to_task = to_task c1\<rparr>" by simp
  with Cons.IH[of ?p "tr @ [Handles d]"] run more Cons.prems(3) show ?case by simp
qed

text \<open>
  A library that publishes a proposal and decides it when a height starts, and then asks for the next value.
\<close>

definition racing_lib :: "(nat, Params) consensus_lib" where
  "racing_lib =
     \<lparr>state_new = (\<lambda>ctx p. p), state_params = (\<lambda>s. s), state_ctx = (\<lambda>s. toy_ctx),
      process_input = (\<lambda>i s. case i of
          StartHeight h vs \<Rightarrow>
            Yield (Publish (SignedProposal (toy_sp h)))
              (\<lambda>a. Yield (Decide \<lparr>cert_height = h, cert_value_id = BaseValueId 0\<rparr>)
                (\<lambda>a. Yield (GetValue h (RoundSome 0)) (\<lambda>a. Complete (Inr ()) s)))
        | _ \<Rightarrow> Complete (Inr ()) s)\<rparr>"

lemma racing_lib_keeps: "lib_keeps_params racing_lib"
  by (simp add: lib_keeps_params_def racing_lib_def)

definition racing_node :: "(nat, Params, unit) node" where
  "racing_node = launched toy_ed25519 [] racing_lib toy_genesis 3"

lemma racing_node_launch: "launch toy_ed25519 [] racing_lib (Inr None) toy_genesis 3 = Inr racing_node"
  by (simp add: launch_ok[OF racing_lib_keeps] racing_node_def initial_header_def)

lemma racing_drive:
  assumes "params_address p = BasePeerAddress 0" and "rx_alive (network w)" and "rx_alive (decision_steps w)"
    and "count (initial_validator_set p) = 4" and "items (proposals w) = []"
  shows "\<exists>w'. apply_input True toy_ed25519 racing_lib \<lparr>peer_id = BasePeerAddress 0\<rparr> (StartHeight (BaseHeight 0) vs) p st ctx w
      = Some (Inl UnwrapErr, w') \<and> items (decision_steps w') = items (decision_steps w) @ toy_steps"
  using assms
  by (cases "tx_alive (proposals w)")
    (simp_all add: apply_input_def racing_lib_def drive_Yield handle_effect_def handle_publish_def handle_decide_def
      handle_get_value_def act_simps publish_proposal_loop increment_def increment_by_def checked_plus_def Let_def
      toy_steps_def count_def, simp_all add: push_network_def push_decisions_def act_simps)

lemma racing_step:
  "\<exists>s'. sim_step True toy_ed25519 racing_lib (chain_sys racing_node) = Some (Ran (Inl UnwrapErr) s') \<and>
     items (decision_steps (world s')) = toy_steps"
proof -
  have s: "chain_sys racing_node = started_system toy_ed25519 [] racing_lib 4 new_channel"
    by (simp add: racing_node_def launched_def)
  obtain p w vs where w: "params_address p = BasePeerAddress 0" "count (initial_validator_set p) = 4"
    "rx_alive (network w)" "rx_alive (decision_steps w)" "items (decision_steps w) = []" "items (proposals w) = []"
    and step: "sim_step True toy_ed25519 racing_lib (chain_sys racing_node) = map_option (after_input 0 (chain_sys racing_node))
       (apply_input True toy_ed25519 racing_lib \<lparr>peer_id = BasePeerAddress 0\<rparr> (StartHeight (BaseHeight 0) vs) p
          (states (chain_sys racing_node) ! 0) (state_ctx racing_lib (states (chain_sys racing_node) ! 0)) w)"
    using s by (rule first_step)
  show ?thesis
    using racing_drive[OF w(1,3,4,2,6), of vs "states (chain_sys racing_node) ! 0" "state_ctx racing_lib (states (chain_sys racing_node) ! 0)"]
      w(5) step by (auto simp: after_input_def)
qed

lemma racing_run:
  "\<exists>tr p. process_run True toy_ed25519 racing_lib R X spec tr (started racing_node) p \<and>
     handled tr = toy_steps \<and> chain_status p = Crashed UnwrapErr \<and> consumer_status p = Returned \<and>
     task_status p = Running \<and> task (parts p) = (task racing_node)
       \<lparr>chain_rx := \<lparr>items = [[42]], rx_alive = True, tx_alive = False\<rparr>\<rparr>"
proof -
  obtain s' where s': "sim_step True toy_ed25519 racing_lib (chain_sys racing_node) = Some (Ran (Inl UnwrapErr) s')"
      "items (decision_steps (world s')) = toy_steps"
    using racing_step by blast
  let ?p = "(started racing_node)\<lparr>parts := drop_chain (racing_node\<lparr>chain_sys := s'\<rparr>), chain_status := Crashed UnwrapErr\<rparr>"
  let ?c = "\<lparr>decisions = first_proposed toy_steps, to_task = new_channel\<lparr>items := [[42]]\<rparr>\<rparr>"
  let ?n = "(parts ?p)\<lparr>chain_sys := (chain_sys (parts ?p))\<lparr>world := (world (chain_sys (parts ?p)))
         \<lparr>decision_steps := (chan_decisions ?p)\<lparr>items := []\<rparr>\<rparr>\<rparr>,
       consumed := decisions ?c, task := (task (parts ?p))\<lparr>chain_rx := to_task ?c\<rparr>\<rparr>"
  have run1: "process_run True toy_ed25519 racing_lib R X spec ([] @ [Panics ChainThread UnwrapErr]) (started racing_node) ?p"
    using process_run.move[OF process_run.none process_move.chain_panics[of "started racing_node"]] s'(1)
    by (simp add: started_def)
  have "foreach toy_steps consumer_handle \<lparr>decisions = consumed (parts ?p), to_task = chan_blocks ?p\<rparr> = (Inr (), ?c)"
    using consumer_refines[of new_channel toy_steps] toy_steps_relayed
    by (simp add: drop_chain_def racing_node_def launched_def new_channel_def)
  then have run2: "process_run True toy_ed25519 racing_lib R X spec
      (([] @ [Panics ChainThread UnwrapErr]) @ map Handles toy_steps) (started racing_node) (?p\<lparr>parts := ?n\<rparr>)"
    using run1 s'(2) by (intro process_consumes[where rest = "[]"]) (simp_all add: drop_chain_def started_def)
  have status: "consumer_status (?p\<lparr>parts := ?n\<rparr>) = Running" by (simp add: started_def)
  have "chan_recv (chan_decisions (?p\<lparr>parts := ?n\<rparr>)) = (Disconnected, chan_decisions (?p\<lparr>parts := ?n\<rparr>))"
    by (simp add: drop_chain_def)
  from process_run.move[OF run2 process_move.consumer_stops[OF status this]] show ?thesis
    by (intro exI conjI, assumption)
      (simp_all add: started_def drop_defs racing_node_def launched_def new_channel_def handled_def comp_def)
qed

lemma racing_task_waits:
  "\<exists>tr p. process_run True toy_ed25519 racing_lib R X spec tr (started racing_node) p \<and>
     relayed (handled tr) = [[42]] \<and> work (task (parts p)) = [[42]] \<and> storage (task (parts p)) = Storage_new toy_genesis \<and>
     items (chan_blocks p) = [] \<and> chain_status p = Crashed UnwrapErr \<and> consumer_status p = Returned \<and>
     task_status p = Running"
proof -
  obtain tr p where run: "process_run True toy_ed25519 racing_lib R X spec tr (started racing_node) p"
    "handled tr = toy_steps" "chain_status p = Crashed UnwrapErr" "consumer_status p = Returned" "task_status p = Running"
    and task: "task (parts p) = (task racing_node)\<lparr>chain_rx := \<lparr>items = [[42]], rx_alive = True, tx_alive = False\<rparr>\<rparr>"
    using racing_run by blast
  have "task_poll True R X spec (task (parts p)) =
      (Inr (), (task racing_node)\<lparr>chain_rx := \<lparr>items = [], rx_alive = True, tx_alive = False\<rparr>,
         pipe_line_events := None, insert_task := Some (AwaitLock [42] (Some 3))\<rparr>)" (is "_ = (_, ?t)")
    unfolding task
    by (subst task_poll.simps)
      (simp add: racing_node_def launched_def task_receive_def task_take_def push_back_def pop_front_def poll_insert_def)
  then have "process_run True toy_ed25519 racing_lib R X spec (tr @ [Works TaskThread]) (started racing_node)
      (p\<lparr>parts := (parts p)\<lparr>task := ?t\<rparr>\<rparr>)"
    by (rule process_run.move[OF run(1) process_move.task_polls[OF run(5)]])
  then show ?thesis
    by (intro exI conjI, assumption)
      (use run toy_steps_relayed in \<open>simp_all add: racing_node_def launched_def work_def\<close>)
qed

lemma closed_task_run:
  assumes "process_run oc E lib R X spec tr p p'" and "sim_inv 4 (chain_sys (parts p))" and "ends_inv p"
    and "consumer_status p \<noteq> Running" and "items (chan_blocks p) = []"
  shows "storage (task (parts p')) = storage (task (parts p)) \<and> items (chan_blocks p') = [] \<and>
    consumer_status p' \<noteq> Running"
  using assms
proof (induction rule: process_run.induct)
  case (move tr p p' l p'')
  then have p': "storage (task (parts p')) = storage (task (parts p))" "items (chan_blocks p') = []"
      "consumer_status p' \<noteq> Running" and closed: "\<not> tx_alive (chan_blocks p')"
    using process_run_ends[OF move.hyps(1)] by (auto simp: ends_inv_def)
  from move.hyps(2) p' show ?case
    by cases (use task_poll_closed(1)[OF closed p'(2), of oc R X spec] in \<open>auto simp: drop_defs\<close>)
qed simp

section \<open>Properties\<close>

lemma launched_process_inv:
  assumes "lib_keeps_params lib" and "hash_separates R (initial_header latest_header genesis)"
    and "launch E rng lib latest_header genesis events = Inr n0" and "process_run oc E lib R X spec tr (started n0) p"
  shows "process_inv R (initial_header latest_header genesis) (handled tr) p"
  using process_run_inv[OF assms(2,4)] started_process_inv assms(3) unfolding launch_ok[OF assms(1)]
  by (metis append_Nil sum.inject(2))

lemma launched_ends:
  assumes "lib_keeps_params lib" and "launch E rng lib latest_header genesis events = Inr n0"
    and "process_run oc E lib R X spec tr (started n0) p"
  shows "sim_inv 4 (chain_sys (parts p)) \<and> ends_inv p"
proof -
  have n0: "n0 = launched E rng lib (initial_header latest_header genesis) events"
    using assms(2) unfolding launch_ok[OF assms(1)] by simp
  have "sim_inv 4 (chain_sys (parts (started n0))) \<and> ends_inv (started n0)"
    using started_process_inv unfolding n0 process_inv_def by blast
  then show ?thesis using process_run_ends[OF assms(3)] by blast
qed



text \<open>C12: when the chain thread ends, the node runs down. From every reachable state in which the chain
  thread no longer runs, in every run the chain thread does nothing, and the consumer makes at most one move
  more than decision steps are waiting; until it has ended it can always move. When the consumer has ended
  too, the task is polled at most one time more than blocks are waiting in its channel before it ends, and
  until then it can always be polled.\<close>

theorem node_runs_down:
  assumes "lib_keeps_params lib" and "launch E rng lib latest_header genesis events = Inr n0"
    and "process_run oc E lib R X spec tr (started n0) p" and "chain_status p \<noteq> Running"
    and "process_run oc E lib R X spec tr' p p'"
  shows "moves_of ChainThread tr' = [] \<and>
    length (moves_of ConsumerThread tr') \<le> length (items (chan_decisions p)) + 1 \<and>
    (consumer_status p' = Running \<longrightarrow>
       (\<exists>l q. process_move oc E lib R X spec l p' q \<and> thread_of l = Some ConsumerThread)) \<and>
    (consumer_status p \<noteq> Running \<longrightarrow>
       length (moves_of TaskThread tr') \<le> length (items (chan_blocks p)) + 1 \<and>
       (task_status p' = Running \<longrightarrow>
          (\<exists>l q. process_move oc E lib R X spec l p' q \<and> thread_of l = Some TaskThread)))"
proof -
  have inv: "sim_inv 4 (chain_sys (parts p))" "ends_inv p" using launched_ends[OF assms(1-3)] by simp_all
  then have ends': "ends_inv p'" using process_run_ends[OF assms(5)] by blast
  note chain = consumer_fuel_run[OF assms(5,4)]
  have "length (moves_of ConsumerThread tr') \<le> length (items (chan_decisions p)) + 1"
    using chain by (auto simp: consumer_fuel_def split: if_splits)
  moreover have "consumer_status p \<noteq> Running \<Longrightarrow> length (moves_of TaskThread tr') \<le> length (items (chan_blocks p)) + 1"
    using task_fuel_run[OF assms(5) _ inv] by (auto simp: task_fuel_def split: if_splits)
  ultimately show ?thesis
    using chain consumer_can_move[OF _ _ ends', of oc E lib R X spec] task_can_move[of p' oc E lib R X spec] assms(4) by simp
qed

theorem node_runs_down_witness:
  "\<exists>tr p. process_run True toy_ed25519 racing_lib toy_reth toy_executor (toy_spec False) tr (started racing_node) p \<and>
     (\<forall>tr' p'. process_run True toy_ed25519 racing_lib toy_reth toy_executor (toy_spec False) tr' p p' \<longrightarrow>
        length (moves_of TaskThread tr') \<le> 1)"
proof -
  obtain tr p where run: "process_run True toy_ed25519 racing_lib toy_reth toy_executor (toy_spec False) tr (started racing_node) p"
    "items (chan_blocks p) = []" "chain_status p = Crashed UnwrapErr" "consumer_status p = Returned"
    using racing_task_waits[of toy_reth toy_executor "toy_spec False"] by blast
  then show ?thesis using node_runs_down[OF racing_lib_keeps racing_node_launch run(1)] by fastforce
qed

text \<open>C13: without the consumer, blocks that wait are lost. In every reachable state in which the consumer has
  ended and nothing is left in the task's channel, the next poll of the task panics on the closed channel,
  although blocks may wait in its queue or its insert future, and whatever happens afterwards the storage
  stays as it is. In the concrete run below that is the fate of a decided block.\<close>

theorem waiting_blocks_lost:
  assumes "lib_keeps_params lib" and "launch E rng lib latest_header genesis events = Inr n0"
    and "process_run oc E lib R X spec tr (started n0) p"
    and "consumer_status p \<noteq> Running" and "items (chan_blocks p) = []"
  shows "task_poll oc R X spec (task (parts p)) = (Inl UnwrapNone, task (parts p)) \<and>
    (\<forall>tr' p'. process_run oc E lib R X spec tr' p p' \<longrightarrow> storage (task (parts p')) = storage (task (parts p)))"
proof -
  have inv: "sim_inv 4 (chain_sys (parts p))" "ends_inv p" using launched_ends[OF assms(1-3)] by simp_all
  then have "\<not> tx_alive (chan_blocks p)" using assms(4) by (simp add: ends_inv_def)
  then show ?thesis using task_poll_closed(1) closed_task_run[OF _ inv assms(4,5)] assms(5) by blast
qed

theorem waiting_blocks_lost_witness:
  "\<exists>tr p. process_run True toy_ed25519 racing_lib toy_reth toy_executor (toy_spec False) tr (started racing_node) p \<and>
     relayed (handled tr) = [[42]] \<and> work (task (parts p)) = [[42]] \<and>
     (\<forall>tr' p'. process_run True toy_ed25519 racing_lib toy_reth toy_executor (toy_spec False) tr' p p' \<longrightarrow>
        storage (task (parts p')) = Storage_new toy_genesis)"
proof -
  obtain tr p where run: "process_run True toy_ed25519 racing_lib toy_reth toy_executor (toy_spec False) tr (started racing_node) p"
    "relayed (handled tr) = [[42]]" "work (task (parts p)) = [[42]]" "storage (task (parts p)) = Storage_new toy_genesis"
    "items (chan_blocks p) = []" "consumer_status p = Returned"
    using racing_task_waits[of toy_reth toy_executor "toy_spec False"] by blast
  then show ?thesis using waiting_blocks_lost[OF racing_lib_keeps racing_node_launch run(1)] by fastforce
qed

end
