(* ===== verification/Launcher.thy ===== *)
theory Launcher
  imports Node_Failures
begin

text \<open>
  \<open>launcher.rs\<close>: \<open>MalachiteNodeLauncher::launch_node\<close>, the sequence of calls that bootstraps the node.

  The calls go to reth. Those that can fail have their outcome in the parameter \<open>C\<close>; every call that
  is made is recorded, in order, in the list \<open>actions\<close> of the launch world, together with the Malachite
  components that the dev branch builds. The operator \<open>?\<close> is \<open>and_then\<close>: an error ends the launch, and
  the actions done so far stay done.

  The theorems say what is started in which mode, that the first error is the last call and is what
  the launch returns, and that the started components are the node of \<open>Node\<close>.
\<close>

section \<open>Configuration and outcomes\<close>

text \<open>An \<open>eyre::Report\<close>.\<close>

datatype eyre = Report string

text \<open>The fields of reth's \<open>NodeConfig\<close> that the launcher reads: \<open>is_dev\<close> and the debug arguments.\<close>

record DebugArgs =
  tip :: "B256 option"
  skip_fcu :: "nat option"
  skip_new_payload :: "nat option"
  engine_api_store :: "string option"
  etherscan :: "string option option" \<comment> \<open>the flag, with a custom URL\<close>
  rpc_consensus_ws :: "string option"
  terminate :: bool

record NodeConfig =
  is_dev :: bool
  debug_args :: DebugArgs

datatype download_client = MalachiteDownloads | NetworkDownloads

datatype engine_hook = StaticFileHook | PruneHook

text \<open>The outcomes of the calls that can fail, and the answers of those that only return a value.\<close>

record launch_calls =
  loaded_toml_config :: "eyre + unit"
  resolved_peers :: "eyre + unit"
  provider_factory :: "eyre + unit"
  prometheus_server :: "eyre + unit"
  genesis_written :: "eyre + unit"
  blockchain_db :: "eyre + unit"
  components_built :: "eyre + unit"
  exex_handle :: "nat option"
  fetch_client :: "eyre + unit"
  max_block :: "eyre + u64 option"
  db_latest_header :: "provider_error + SealedHeader option"
  spec_genesis_header :: SealedHeader
  networked_pipeline :: "download_client \<Rightarrow> eyre + event_stream"
  consensus_engine :: "eyre + unit"
  auth_jwt_secret :: "eyre + unit"
  rpc_servers :: "eyre + unit"
  chain_name :: string
  etherscan_urls :: "string option"
  etherscan_api_key :: "string option"
  node_started_hook :: "eyre + unit"

section \<open>Actions\<close>

record engine_config =
  engine_client :: download_client
  engine_max_block :: "u64 option"
  initial_target :: "B256 option"
  engine_hooks :: "engine_hook list"
  stream_skip_fcu :: "nat option"
  stream_skip_new_payload :: "nat option"
  stream_store :: "string option"

datatype event_source =
    NetworkEvents | EngineEvents | PipelineEvents | ConsensusLayerHealthEvents | PrunerEvents | StaticFileEvents

datatype launch_action =
    ConfigureGlobals | LoadTomlConfig | ResolvePeers | AttachDatabase | AdjustConfigs | ProviderFactory
  | PrometheusServer | InitGenesis | MetricsTask | BlockchainDb | BuildComponents
  | LaunchExExs | FetchClient | MaxBlock | AddStaticFileHook
  | BuildMalachite
  | SpawnBlocking string
  | SpawnCriticalBlocking string
  | SpawnCritical string
  | BuildPipeline download_client
  | SetPipelineEvents
  | BuildPruner bool \<comment> \<open>whether the finished height of the extensions bounds it\<close>
  | AddPruneHook
  | BuildEngine engine_config
  | SpawnEvents "event_source list"
  | BuildEngineApi
  | JwtSecret | RpcServers | DevAccounts
  | EtherscanUrl | EtherscanApiKey
  | NodeStarted

record ('tx, 'db) launch_world =
  actions :: "launch_action list"
  malachite :: "('tx, 'db) components option"

type_synonym ('tx, 'db, 'a) launch_act = "(('tx, 'db) launch_world, eyre + 'a) act"

text \<open>A call with its outcome, and the operator \<open>?\<close>.\<close>

definition call :: "launch_action \<Rightarrow> eyre + 'a \<Rightarrow> ('tx, 'db, 'a) launch_act" where
  "call a r w = (Inr r, w\<lparr>actions := actions w @ [a]\<rparr>)"

definition and_then :: "('tx, 'db, 'a) launch_act \<Rightarrow> ('a \<Rightarrow> ('tx, 'db, 'b) launch_act) \<Rightarrow> ('tx, 'db, 'b) launch_act" where
  "and_then m k = bind m (\<lambda>r. case r of Inl e \<Rightarrow> ret (Inl e) | Inr x \<Rightarrow> k x)"

text \<open>A chain of calls that hand on nothing but the context.\<close>

primrec calls :: "(launch_action \<times> (eyre + unit)) list \<Rightarrow> ('tx, 'db, unit) launch_act" where
  "calls [] = ret (Inr ())"
| "calls (a # as) = and_then (call (fst a) (snd a)) (\<lambda>_. calls as)"

text \<open>\<open>Option::ok_or_else\<close>.\<close>

definition ok_or :: "eyre \<Rightarrow> 'a option \<Rightarrow> eyre + 'a" where
  "ok_or e x = (case x of None \<Rightarrow> Inl e | Some y \<Rightarrow> Inr y)"

section \<open>launch\_node\<close>

text \<open>The launch context, up to the components.\<close>

definition setup_context :: "launch_calls \<Rightarrow> ('tx, 'db, unit) launch_act" where
  "setup_context C = calls
     [(ConfigureGlobals, Inr ()),
      (LoadTomlConfig, loaded_toml_config C),
      (ResolvePeers, resolved_peers C),
      (AttachDatabase, Inr ()),
      (AdjustConfigs, Inr ()),
      (ProviderFactory, provider_factory C),
      (PrometheusServer, prometheus_server C),
      (InitGenesis, genesis_written C),
      (MetricsTask, Inr ()),
      (BlockchainDb, blockchain_db C),
      (BuildComponents, components_built C),
      (LaunchExExs, Inr ()),
      (FetchClient, fetch_client C)]"

text \<open>The maximum block and the static file hook.\<close>

definition prepare_pipeline :: "launch_calls \<Rightarrow> ('tx, 'db, u64 option) launch_act" where
  "prepare_pipeline C =
     and_then (call MaxBlock (max_block C)) (\<lambda>mb.
     and_then (call AddStaticFileHook (Inr ())) (\<lambda>_. ret (Inr mb)))"

text \<open>
  The dev branch: build the Malachite components, start chain and consumer, build the pipeline on the
  Malachite client, hand its events to the task, start the task.
\<close>

definition build_malachite :: "launch_calls \<Rightarrow> ('tx, 'db, unit) launch_act" where
  "build_malachite C w =
     call BuildMalachite (Inr ()) (w\<lparr>malachite :=
       Some (MalachiteChainBuilder_build (MalachiteChainBuilder_new (db_latest_header C) (spec_genesis_header C)))\<rparr>)"

definition hand_events :: "event_stream \<Rightarrow> ('tx, 'db, unit) launch_act" where
  "hand_events events w =
     call SetPipelineEvents (Inr ()) (w\<lparr>malachite :=
       map_option (\<lambda>c. c\<lparr>malachite_task := set_pipeline_events events (malachite_task c)\<rparr>) (malachite w)\<rparr>)"

definition dev_pipeline :: "launch_calls \<Rightarrow> ('tx, 'db, download_client) launch_act" where
  "dev_pipeline C =
     and_then (build_malachite C) (\<lambda>_.
     and_then (call (SpawnBlocking ''chain'') (Inr ())) (\<lambda>_.
     and_then (call (SpawnCriticalBlocking ''malachite consumer'') (Inr ())) (\<lambda>_.
     and_then (call (BuildPipeline MalachiteDownloads) (networked_pipeline C MalachiteDownloads)) (\<lambda>events.
     and_then (hand_events events) (\<lambda>_.
     and_then (call (SpawnCritical ''mining task'') (Inr ())) (\<lambda>_.
     ret (Inr MalachiteDownloads)))))))"

definition network_pipeline :: "launch_calls \<Rightarrow> ('tx, 'db, download_client) launch_act" where
  "network_pipeline C =
     and_then (call (BuildPipeline NetworkDownloads) (networked_pipeline C NetworkDownloads)) (\<lambda>events.
     ret (Inr NetworkDownloads))"

definition configure_pipeline :: "launch_calls \<Rightarrow> NodeConfig \<Rightarrow> ('tx, 'db, download_client) launch_act" where
  "configure_pipeline C config = (if is_dev config then dev_pipeline C else network_pipeline C)"

text \<open>The pruner and its hook, then the engine.\<close>

definition engine_config_of :: "NodeConfig \<Rightarrow> download_client \<Rightarrow> u64 option \<Rightarrow> engine_config" where
  "engine_config_of config client mb =
     \<lparr>engine_client = client, engine_max_block = mb, initial_target = tip (debug_args config),
      engine_hooks = [StaticFileHook, PruneHook],
      stream_skip_fcu = skip_fcu (debug_args config), stream_skip_new_payload = skip_new_payload (debug_args config),
      stream_store = engine_api_store (debug_args config)\<rparr>"

definition configure_engine ::
  "launch_calls \<Rightarrow> NodeConfig \<Rightarrow> download_client \<Rightarrow> u64 option \<Rightarrow> ('tx, 'db, unit) launch_act" where
  "configure_engine C config client mb = calls
     [(BuildPruner (exex_handle C \<noteq> None), Inr ()),
      (AddPruneHook, Inr ()),
      (BuildEngine (engine_config_of config client mb), consensus_engine C)]"

text \<open>The event streams that are merged; \<open>stream::empty\<close> contributes nothing.\<close>

definition event_sources :: "NodeConfig \<Rightarrow> event_source list" where
  "event_sources config =
     [NetworkEvents, EngineEvents, PipelineEvents]
     @ (if tip (debug_args config) = None \<and> \<not> is_dev config then [ConsensusLayerHealthEvents] else [])
     @ [PrunerEvents, StaticFileEvents]"

text \<open>The events task, the engine API, the RPC servers, the dev accounts, and the engine itself.\<close>

definition start_services :: "launch_calls \<Rightarrow> NodeConfig \<Rightarrow> ('tx, 'db, unit) launch_act" where
  "start_services C config = calls
     ([(SpawnEvents (event_sources config), Inr ()),
       (BuildEngineApi, Inr ()),
       (JwtSecret, auth_jwt_secret C),
       (RpcServers, rpc_servers C)]
      @ (if is_dev config then [(DevAccounts, Inr ())] else [])
      @ [(SpawnCriticalBlocking ''consensus engine'', Inr ())])"

text \<open>Etherscan as consensus client: the given URL or the chain's default one, and the chain's key.\<close>

definition etherscan_url :: "launch_calls \<Rightarrow> string option \<Rightarrow> eyre + string" where
  "etherscan_url C maybe_custom =
     (case maybe_custom of
        Some url \<Rightarrow> Inr url
      | None \<Rightarrow> ok_or (Report (''failed to get etherscan url for chain: '' @ chain_name C)) (etherscan_urls C))"

definition etherscan_client :: "launch_calls \<Rightarrow> NodeConfig \<Rightarrow> ('tx, 'db, unit) launch_act" where
  "etherscan_client C config =
     (case etherscan (debug_args config) of
        None \<Rightarrow> ret (Inr ())
      | Some maybe_custom \<Rightarrow>
          and_then (call EtherscanUrl (etherscan_url C maybe_custom)) (\<lambda>url.
          and_then (call EtherscanApiKey
            (ok_or (Report (''etherscan api key not found for rpc consensus client for chain: '' @ chain_name C))
               (etherscan_api_key C))) (\<lambda>key.
          call (SpawnCritical ''etherscan consensus client'') (Inr ()))))"

definition rpc_client :: "NodeConfig \<Rightarrow> ('tx, 'db, unit) launch_act" where
  "rpc_client config =
     (case rpc_consensus_ws (debug_args config) of
        None \<Rightarrow> ret (Inr ())
      | Some url \<Rightarrow> call (SpawnCritical ''rpc consensus client'') (Inr ()))"

record node_handle =
  handle_config :: NodeConfig
  exit_on_terminate :: bool

definition launch_node :: "launch_calls \<Rightarrow> NodeConfig \<Rightarrow> ('tx, 'db, node_handle) launch_act" where
  "launch_node C config =
     and_then (setup_context C) (\<lambda>_.
     and_then (prepare_pipeline C) (\<lambda>mb.
     and_then (configure_pipeline C config) (\<lambda>client.
     and_then (configure_engine C config client mb) (\<lambda>_.
     and_then (start_services C config) (\<lambda>_.
     and_then (etherscan_client C config) (\<lambda>_.
     and_then (rpc_client config) (\<lambda>_.
     and_then (call NodeStarted (node_started_hook C)) (\<lambda>_.
     ret (Inr \<lparr>handle_config = config, exit_on_terminate = terminate (debug_args config)\<rparr>)))))))))"

text \<open>
  The exit future \<open>async { Ok(rx.await??) }\<close>, a function of what the engine's thread sent: nothing when
  the thread died, else the engine's result.
\<close>

definition exit_result :: "(eyre + unit) option \<Rightarrow> eyre + unit" where
  "exit_result sent =
     (case sent of
        None \<Rightarrow> Inl (Report ''channel closed'')
      | Some (Inl e) \<Rightarrow> Inl e
      | Some (Inr u) \<Rightarrow> Inr u)"

definition launch_start :: "('tx, 'db) launch_world" where
  "launch_start = \<lparr>actions = [], malachite = None\<rparr>"

section \<open>The first error ends the launch\<close>

text \<open>The error of a call, where it has one.\<close>

definition error_of :: "eyre + 'a \<Rightarrow> eyre option" where
  "error_of r = (case r of Inl e \<Rightarrow> Some e | Inr _ \<Rightarrow> None)"

definition call_error :: "launch_calls \<Rightarrow> NodeConfig \<Rightarrow> launch_action \<Rightarrow> eyre option" where
  "call_error C config a =
     (case a of
        LoadTomlConfig \<Rightarrow> error_of (loaded_toml_config C)
      | ResolvePeers \<Rightarrow> error_of (resolved_peers C)
      | ProviderFactory \<Rightarrow> error_of (provider_factory C)
      | PrometheusServer \<Rightarrow> error_of (prometheus_server C)
      | InitGenesis \<Rightarrow> error_of (genesis_written C)
      | BlockchainDb \<Rightarrow> error_of (blockchain_db C)
      | BuildComponents \<Rightarrow> error_of (components_built C)
      | FetchClient \<Rightarrow> error_of (fetch_client C)
      | MaxBlock \<Rightarrow> error_of (max_block C)
      | BuildPipeline cl \<Rightarrow> error_of (networked_pipeline C cl)
      | BuildEngine ec \<Rightarrow> error_of (consensus_engine C)
      | JwtSecret \<Rightarrow> error_of (auth_jwt_secret C)
      | RpcServers \<Rightarrow> error_of (rpc_servers C)
      | EtherscanUrl \<Rightarrow> Option.bind (etherscan (debug_args config)) (\<lambda>custom. error_of (etherscan_url C custom))
      | EtherscanApiKey \<Rightarrow> Option.bind (etherscan (debug_args config)) (\<lambda>_. error_of (ok_or (Report
          (''etherscan api key not found for rpc consensus client for chain: '' @ chain_name C)) (etherscan_api_key C)))
      | NodeStarted \<Rightarrow> error_of (node_started_hook C)
      | _ \<Rightarrow> None)"

text \<open>
  \<open>first_error err r as\<close>: the result of making the calls \<open>as\<close> is an error exactly when the last of them
  has that error, and no other of them has one. \<open>stops_at_error err m\<close>: the action appends such calls.
\<close>

definition first_error :: "(launch_action \<Rightarrow> eyre option) \<Rightarrow> eyre + 'a \<Rightarrow> launch_action list \<Rightarrow> bool" where
  "first_error err r as \<longleftrightarrow>
     (case r of
        Inr _ \<Rightarrow> \<forall>a\<in>set as. err a = None
      | Inl e \<Rightarrow> \<exists>as' a. as = as' @ [a] \<and> err a = Some e \<and> (\<forall>a\<in>set as'. err a = None))"

definition stops_at_error :: "(launch_action \<Rightarrow> eyre option) \<Rightarrow> ('tx, 'db, 'a) launch_act \<Rightarrow> bool" where
  "stops_at_error err m \<longleftrightarrow>
     (\<forall>w. \<exists>r w' as. m w = (Inr r, w') \<and> actions w' = actions w @ as \<and> first_error err r as)"

named_theorems stop_intros \<open>composition rules for stops_at_error\<close>

lemma first_error_append:
  "first_error err (Inr x) as \<Longrightarrow> first_error err r as2 \<Longrightarrow> first_error err r (as @ as2)"
proof (cases r)
  case (Inl e)
  assume "first_error err (Inr x) as" "first_error err r as2"
  with Inl obtain as' a where "as2 = as' @ [a]" "err a = Some e" "\<forall>a\<in>set as'. err a = None" "\<forall>a\<in>set as. err a = None"
    by (auto simp: first_error_def)
  with Inl show ?thesis by (auto simp: first_error_def intro!: exI[of _ "as @ as'"])
qed (auto simp: first_error_def)

lemma stops_ret [stop_intros]: "stops_at_error err (ret (Inr x))"
  by (simp add: stops_at_error_def first_error_def act_simps)

lemma stops_call [stop_intros]: "err a = error_of r \<Longrightarrow> stops_at_error err (call a r)"
  by (cases r) (auto simp: stops_at_error_def first_error_def call_def error_of_def)

lemma stops_and_then [stop_intros]:
  assumes m: "stops_at_error err m" and k: "\<And>x. stops_at_error err (k x)"
  shows "stops_at_error err (and_then m k)"
  unfolding stops_at_error_def
proof
  fix w
  obtain r w1 as where one: "m w = (Inr r, w1)" "actions w1 = actions w @ as" "first_error err r as"
    using m unfolding stops_at_error_def by blast
  show "\<exists>r w' as. and_then m k w = (Inr r, w') \<and> actions w' = actions w @ as \<and> first_error err r as"
  proof (cases r)
    case (Inl e)
    with one show ?thesis by (auto simp: and_then_def act_simps first_error_def)
  next
    case (Inr x)
    obtain r2 w2 as2 where two: "k x w1 = (Inr r2, w2)" "actions w2 = actions w1 @ as2" "first_error err r2 as2"
      using k[of x] unfolding stops_at_error_def by blast
    then show ?thesis
      using one Inr first_error_append[of err x as r2 as2] by (auto simp: and_then_def act_simps)
  qed
qed

lemma stops_calls [stop_intros]: "list_all (\<lambda>(a, r). err a = error_of r) as \<Longrightarrow> stops_at_error err (calls as)"
  by (induction as) (auto intro!: stop_intros)

lemma stops_build [stop_intros]:
  "err BuildMalachite = None \<Longrightarrow> stops_at_error err (build_malachite C)"
  "err SetPipelineEvents = None \<Longrightarrow> stops_at_error err (hand_events events)"
  by (auto simp: stops_at_error_def first_error_def build_malachite_def hand_events_def call_def)

lemma launch_stops: "stops_at_error (call_error C config) (launch_node C config)"
  unfolding launch_node_def setup_context_def prepare_pipeline_def configure_pipeline_def dev_pipeline_def
    network_pipeline_def configure_engine_def start_services_def etherscan_client_def rpc_client_def
  by (auto intro!: stop_intros simp: call_error_def error_of_def split: option.splits)

section \<open>A launch that succeeds\<close>

lemma and_then_ok:
  "and_then m k w = (Inr (Inr y), w') \<longleftrightarrow> (\<exists>x w1. m w = (Inr (Inr x), w1) \<and> k x w1 = (Inr (Inr y), w'))"
  by (auto simp: and_then_def act_simps split: prod.splits sum.splits)

lemma call_ok: "call a r w = (Inr (Inr x), w') \<longleftrightarrow> r = Inr x \<and> w' = w\<lparr>actions := actions w @ [a]\<rparr>"
  by (auto simp: call_def)

lemma calls_ok: "calls as w = (Inr (Inr u), w') \<Longrightarrow> w' = w\<lparr>actions := actions w @ map fst as\<rparr>"
  by (induction as arbitrary: w) (fastforce simp: act_simps and_then_ok call_ok)+

text \<open>What is done, in order, when everything succeeds.\<close>

definition pipeline_actions :: "NodeConfig \<Rightarrow> launch_action list" where
  "pipeline_actions config =
     (if is_dev config
      then [BuildMalachite, SpawnBlocking ''chain'', SpawnCriticalBlocking ''malachite consumer'',
            BuildPipeline MalachiteDownloads, SetPipelineEvents, SpawnCritical ''mining task'']
      else [BuildPipeline NetworkDownloads])"

definition debug_actions :: "NodeConfig \<Rightarrow> launch_action list" where
  "debug_actions config =
     (if etherscan (debug_args config) = None then []
      else [EtherscanUrl, EtherscanApiKey, SpawnCritical ''etherscan consensus client''])
     @ (if rpc_consensus_ws (debug_args config) = None then [] else [SpawnCritical ''rpc consensus client''])"

definition client_of :: "NodeConfig \<Rightarrow> download_client" where
  "client_of config = (if is_dev config then MalachiteDownloads else NetworkDownloads)"

definition built_components :: "launch_calls \<Rightarrow> event_stream \<Rightarrow> ('tx, 'db) components" where
  "built_components C events =
     (let c = MalachiteChainBuilder_build (MalachiteChainBuilder_new (db_latest_header C) (spec_genesis_header C))
      in c\<lparr>malachite_task := set_pipeline_events events (malachite_task c)\<rparr>)"

lemma configure_pipeline_ok:
  assumes "configure_pipeline C config w = (Inr (Inr client), w')" and "malachite w = None"
  shows "client = client_of config \<and> actions w' = actions w @ pipeline_actions config \<and>
    (\<exists>events. networked_pipeline C (client_of config) = Inr events \<and>
       malachite w' = (if is_dev config then Some (built_components C events) else None))"
  using assms
  by (cases "is_dev config")
    (auto simp: configure_pipeline_def dev_pipeline_def network_pipeline_def build_malachite_def hand_events_def
      and_then_ok call_ok act_simps pipeline_actions_def client_of_def built_components_def Let_def)

lemma debug_clients_ok:
  assumes "etherscan_client C config w = (Inr (Inr u), w1)" and "rpc_client config w1 = (Inr (Inr v), w2)"
  shows "w2 = w\<lparr>actions := actions w @ debug_actions config\<rparr>"
  using assms
  by (auto simp: etherscan_client_def rpc_client_def and_then_ok call_ok act_simps debug_actions_def split: option.splits)

lemma prepare_pipeline_ok:
  "prepare_pipeline C w = (Inr (Inr mb), w') \<longleftrightarrow>
     max_block C = Inr mb \<and> w' = w\<lparr>actions := actions w @ [MaxBlock, AddStaticFileHook]\<rparr>"
  by (auto simp: prepare_pipeline_def and_then_ok call_ok act_simps)

lemma launch_node_ok:
  assumes "launch_node C config launch_start = (Inr (Inr h), w)"
  shows "\<exists>mb events. max_block C = Inr mb \<and> networked_pipeline C (client_of config) = Inr events \<and>
    malachite w = (if is_dev config then Some (built_components C events) else None) \<and>
    actions w =
      [ConfigureGlobals, LoadTomlConfig, ResolvePeers, AttachDatabase, AdjustConfigs, ProviderFactory,
       PrometheusServer, InitGenesis, MetricsTask, BlockchainDb, BuildComponents, LaunchExExs, FetchClient,
       MaxBlock, AddStaticFileHook] @ pipeline_actions config @
      [BuildPruner (exex_handle C \<noteq> None), AddPruneHook, BuildEngine (engine_config_of config (client_of config) mb),
       SpawnEvents (event_sources config), BuildEngineApi, JwtSecret, RpcServers] @
      (if is_dev config then [DevAccounts] else []) @
      [SpawnCriticalBlocking ''consensus engine''] @ debug_actions config @ [NodeStarted] \<and>
    h = \<lparr>handle_config = config, exit_on_terminate = terminate (debug_args config)\<rparr>"
proof -
  obtain w1 w2 mb client w3 w4 w5 w6 w7 u where
    w1: "setup_context C launch_start = (Inr (Inr ()), w1)" and w2: "prepare_pipeline C w1 = (Inr (Inr mb), w2)"
    and w3: "configure_pipeline C config w2 = (Inr (Inr client), w3)"
    and w4: "configure_engine C config client mb w3 = (Inr (Inr ()), w4)"
    and w5: "start_services C config w4 = (Inr (Inr ()), w5)"
    and w7: "etherscan_client C config w5 = (Inr (Inr ()), w6)" "rpc_client config w6 = (Inr (Inr ()), w7)"
    and w: "w = w7\<lparr>actions := actions w7 @ [NodeStarted]\<rparr>"
      "h = \<lparr>handle_config = config, exit_on_terminate = terminate (debug_args config)\<rparr>"
    using assms unfolding launch_node_def by (auto simp: and_then_ok call_ok act_simps)
  note w1' = calls_ok[OF w1[unfolded setup_context_def]] and w4' = calls_ok[OF w4[unfolded configure_engine_def]]
    and w5' = calls_ok[OF w5[unfolded start_services_def]]
  have "malachite w2 = None" using w1' w2 by (simp add: launch_start_def prepare_pipeline_ok)
  from configure_pipeline_ok[OF w3 this] show ?thesis
    using w1' w2 w4' w5' debug_clients_ok[OF w7] w by (auto simp: prepare_pipeline_ok launch_start_def)
qed

section \<open>From the spawned futures to the node\<close>

text \<open>The node that the spawned futures of the components make when they first run.\<close>

definition threads_started ::
  "ed25519 \<Rightarrow> bytes \<Rightarrow> ('tx, 'cs) consensus_lib \<Rightarrow> ('tx, 'db) components \<Rightarrow> panic + ('tx, 'cs, 'db) node" where
  "threads_started E rng lib c =
     (case MalachiteChain_poll E rng lib (malachite_chain c) of
        Inl p \<Rightarrow> Inl p
      | Inr (s, b) \<Rightarrow>
          Inr \<lparr>chain_sys = s, block_builder = b, consumed = decisions (malachite_consumer c), task = malachite_task c\<rparr>)"

lemma threads_started_launch:
  "threads_started E rng lib (built_components C events) =
     launch E rng lib (db_latest_header C) (spec_genesis_header C) events"
  by (simp add: threads_started_def built_components_def launch_def Let_def split: sum.split prod.split)

definition is_spawn :: "launch_action \<Rightarrow> bool" where
  "is_spawn a = (case a of SpawnBlocking _ \<Rightarrow> True | SpawnCriticalBlocking _ \<Rightarrow> True | SpawnCritical _ \<Rightarrow> True
     | SpawnEvents _ \<Rightarrow> True | _ \<Rightarrow> False)"

text \<open>A launch in which every call succeeds, in dev mode or not.\<close>

definition toy_calls :: launch_calls where
  "toy_calls =
     \<lparr>loaded_toml_config = Inr (), resolved_peers = Inr (), provider_factory = Inr (), prometheus_server = Inr (),
      genesis_written = Inr (), blockchain_db = Inr (), components_built = Inr (), exex_handle = None,
      fetch_client = Inr (), max_block = Inr None, db_latest_header = Inr None, spec_genesis_header = toy_genesis,
      networked_pipeline = (\<lambda>cl. Inr 3), consensus_engine = Inr (), auth_jwt_secret = Inr (), rpc_servers = Inr (),
      chain_name = ''dev'', etherscan_urls = None, etherscan_api_key = None, node_started_hook = Inr ()\<rparr>"

definition toy_config :: "bool \<Rightarrow> NodeConfig" where
  "toy_config d =
     \<lparr>is_dev = d, debug_args = \<lparr>tip = None, skip_fcu = None, skip_new_payload = None, engine_api_store = None,
        etherscan = None, rpc_consensus_ws = None, terminate = False\<rparr>\<rparr>"

lemma launch_outcome:
  obtains r and w :: "('tx, 'db) launch_world" where "launch_node C config launch_start = (Inr r, w)"
    "first_error (call_error C config) r (actions w)"
proof -
  have start: "actions (launch_start :: ('tx, 'db) launch_world) = []" by (simp add: launch_start_def)
  obtain r as and w :: "('tx, 'db) launch_world" where "launch_node C config launch_start = (Inr r, w)"
    "actions w = actions (launch_start :: ('tx, 'db) launch_world) @ as" "first_error (call_error C config) r as"
    using launch_stops[of C config] unfolding stops_at_error_def by blast
  with that[of r w] start show thesis by simp
qed

lemma launch_returns:
  assumes "\<forall>a. call_error C config a = None"
  shows "\<exists>h w. launch_node C config launch_start = (Inr (Inr h), w :: ('tx, 'db) launch_world)"
proof (rule launch_outcome[of C config])
  fix r and w :: "('tx, 'db) launch_world"
  assume "launch_node C config launch_start = (Inr r, w)" "first_error (call_error C config) r (actions w)"
  with assms show ?thesis by (cases r) (auto simp: first_error_def)
qed

lemma toy_config_launch: "\<exists>h w. launch_node toy_calls (toy_config d) launch_start = (Inr (Inr h), w)"
  by (rule launch_returns)
    (auto simp: call_error_def toy_calls_def toy_config_def error_of_def etherscan_url_def ok_or_def
      split: launch_action.splits)

text \<open>In dev mode with a pipeline that cannot be built: the calls up to that point.\<close>

lemma dev_pipeline_fails:
  assumes "networked_pipeline C MalachiteDownloads = Inl e"
  shows "dev_pipeline C w = (Inr (Inl e),
    w\<lparr>malachite := Some (MalachiteChainBuilder_build (MalachiteChainBuilder_new (db_latest_header C) (spec_genesis_header C))),
      actions := actions w @ [BuildMalachite, SpawnBlocking ''chain'', SpawnCriticalBlocking ''malachite consumer'',
        BuildPipeline MalachiteDownloads]\<rparr>)"
  using assms by (simp add: dev_pipeline_def build_malachite_def and_then_def call_def act_simps)

lemma calls_run:
  "list_all (\<lambda>(a, r). \<exists>u. r = Inr u) as \<Longrightarrow>
     calls as w = (Inr (Inr ()), w\<lparr>actions := actions w @ map fst as\<rparr>)"
  by (induction as arbitrary: w) (auto simp: act_simps and_then_def call_def)

text \<open>The calls before the pipeline succeed.\<close>

definition setup_succeeds :: "launch_calls \<Rightarrow> bool" where
  "setup_succeeds C \<longleftrightarrow>
     loaded_toml_config C = Inr () \<and> resolved_peers C = Inr () \<and> provider_factory C = Inr () \<and>
     prometheus_server C = Inr () \<and> genesis_written C = Inr () \<and> blockchain_db C = Inr () \<and>
     components_built C = Inr () \<and> fetch_client C = Inr () \<and> error_of (max_block C) = None"

section \<open>Properties\<close>



text \<open>C14: in dev mode a successful launch starts the Malachite node. The chain and the consumer are spawned
  before the pipeline is built, the task after it was given the pipeline's events; then come the events task
  and the engine, which downloads from the Malachite client and gets no consensus layer health events. The
  node that the spawned futures make is the launched node of the other theorems, on the chain's latest or
  genesis header.\<close>

theorem dev_launch_starts_malachite:
  assumes "is_dev config" and "launch_node C config launch_start = (Inr (Inr h), w)"
  shows "take 5 (filter is_spawn (actions w)) =
      [SpawnBlocking ''chain'', SpawnCriticalBlocking ''malachite consumer'', SpawnCritical ''mining task'',
       SpawnEvents [NetworkEvents, EngineEvents, PipelineEvents, PrunerEvents, StaticFileEvents],
       SpawnCriticalBlocking ''consensus engine''] \<and>
    (\<exists>xs ys ec. actions w = xs @ [BuildPipeline MalachiteDownloads, SetPipelineEvents, SpawnCritical ''mining task''] @ ys \<and>
       BuildEngine ec \<in> set ys \<and> engine_client ec = MalachiteDownloads \<and> DevAccounts \<in> set ys) \<and>
    (\<exists>c events. malachite w = Some c \<and> networked_pipeline C MalachiteDownloads = Inr events \<and>
       threads_started E rng lib c = launch E rng lib (db_latest_header C) (spec_genesis_header C) events)"
proof -
  obtain mb events where ok: "networked_pipeline C (client_of config) = Inr events"
    "malachite w = Some (built_components C events)"
    "actions w =
      [ConfigureGlobals, LoadTomlConfig, ResolvePeers, AttachDatabase, AdjustConfigs, ProviderFactory,
       PrometheusServer, InitGenesis, MetricsTask, BlockchainDb, BuildComponents, LaunchExExs, FetchClient,
       MaxBlock, AddStaticFileHook] @ pipeline_actions config @
      [BuildPruner (exex_handle C \<noteq> None), AddPruneHook, BuildEngine (engine_config_of config (client_of config) mb),
       SpawnEvents (event_sources config), BuildEngineApi, JwtSecret, RpcServers] @
      (if is_dev config then [DevAccounts] else []) @
      [SpawnCriticalBlocking ''consensus engine''] @ debug_actions config @ [NodeStarted]"
    using launch_node_ok[OF assms(2)] assms(1) by auto
  let ?xs = "[ConfigureGlobals, LoadTomlConfig, ResolvePeers, AttachDatabase, AdjustConfigs, ProviderFactory,
       PrometheusServer, InitGenesis, MetricsTask, BlockchainDb, BuildComponents, LaunchExExs, FetchClient,
       MaxBlock, AddStaticFileHook, BuildMalachite, SpawnBlocking ''chain'', SpawnCriticalBlocking ''malachite consumer'']"
  have client: "engine_client (engine_config_of config (client_of config) mb) = MalachiteDownloads"
    using assms(1) by (simp add: engine_config_of_def client_of_def)
  have "take 5 (filter is_spawn (actions w)) =
      [SpawnBlocking ''chain'', SpawnCriticalBlocking ''malachite consumer'', SpawnCritical ''mining task'',
       SpawnEvents [NetworkEvents, EngineEvents, PipelineEvents, PrunerEvents, StaticFileEvents],
       SpawnCriticalBlocking ''consensus engine'']"
    unfolding ok(3) using assms(1) by (simp add: pipeline_actions_def is_spawn_def event_sources_def)
  moreover have "\<exists>xs ys ec. actions w = xs @ [BuildPipeline MalachiteDownloads, SetPipelineEvents, SpawnCritical ''mining task''] @ ys \<and>
       BuildEngine ec \<in> set ys \<and> engine_client ec = MalachiteDownloads \<and> DevAccounts \<in> set ys"
    unfolding ok(3) using assms(1) client
    by (intro exI[of _ ?xs] exI[of _ "drop (length ?xs + 3) (actions w)"]
        exI[of _ "engine_config_of config (client_of config) mb"]) (simp add: ok(3) pipeline_actions_def)
  ultimately show ?thesis
    using ok(1,2) threads_started_launch assms(1) by (simp add: client_of_def)
qed

theorem dev_launch_starts_malachite_witness:
  "\<exists>h w c. launch_node toy_calls (toy_config True) launch_start = (Inr (Inr h), w :: (nat, unit) launch_world) \<and>
     malachite w = Some c \<and> threads_started toy_ed25519 [] deciding_lib c = Inr toy_node"
proof -
  obtain h and w :: "(nat, unit) launch_world" where
    run: "launch_node toy_calls (toy_config True) launch_start = (Inr (Inr h), w)"
    using toy_config_launch by blast
  have dev: "is_dev (toy_config True)" by (simp add: toy_config_def)
  have "launch toy_ed25519 [] deciding_lib (db_latest_header toy_calls) (spec_genesis_header toy_calls) 3 = Inr toy_node"
    using toy_node_launch by (simp add: toy_calls_def)
  moreover have "networked_pipeline toy_calls MalachiteDownloads = Inr 3" by (simp add: toy_calls_def)
  ultimately show ?thesis
    using dev_launch_starts_malachite[OF dev run, of toy_ed25519 "[]" deciding_lib] run by auto
qed

text \<open>What a launch outside dev mode may do.\<close>

definition network_action :: "launch_action \<Rightarrow> bool" where
  "network_action a =
     (case a of BuildMalachite \<Rightarrow> False | SetPipelineEvents \<Rightarrow> False | SpawnBlocking _ \<Rightarrow> False | DevAccounts \<Rightarrow> False
      | SpawnCriticalBlocking name \<Rightarrow> name = ''consensus engine''
      | SpawnCritical name \<Rightarrow> name \<noteq> ''mining task''
      | BuildPipeline cl \<Rightarrow> cl = NetworkDownloads
      | BuildEngine ec \<Rightarrow> engine_client ec = NetworkDownloads
      | _ \<Rightarrow> True)"

definition network_moves :: "('tx, 'db) launch_world \<Rightarrow> ('tx, 'db) launch_world \<Rightarrow> bool" where
  "network_moves w w' \<longleftrightarrow>
     malachite w' = malachite w \<and> (\<exists>as. actions w' = actions w @ as \<and> list_all network_action as)"

lemma network_moves_preorder: "reflp network_moves" "transp network_moves"
  by (auto simp: reflp_def transp_def network_moves_def)

lemma within_call: "network_action a \<Longrightarrow> within network_moves (call a r)"
  by (simp add: within_def call_def network_moves_def)

lemma within_and_then:
  assumes "within network_moves m" and "\<And>x. within network_moves (k x)"
  shows "within network_moves (and_then m k)"
  unfolding and_then_def
  by (rule within_bind) (use network_moves_preorder assms in \<open>auto intro: within_ret split: sum.split\<close>)

lemma within_calls: "list_all (\<lambda>(a, r). network_action a) as \<Longrightarrow> within network_moves (calls as)"
  by (induction as) (auto intro!: within_ret within_and_then within_call network_moves_preorder)

lemma network_pipeline_within:
  "within network_moves (and_then (network_pipeline C) (\<lambda>client. and_then (configure_engine C config client mb) k))"
  if "\<And>x. within network_moves (k x)"
proof -
  have "and_then (network_pipeline C) (\<lambda>client. and_then (configure_engine C config client mb) k) =
      and_then (call (BuildPipeline NetworkDownloads) (networked_pipeline C NetworkDownloads))
        (\<lambda>_. and_then (configure_engine C config NetworkDownloads mb) k)"
    by (auto simp: network_pipeline_def and_then_def act_simps fun_eq_iff split: sum.split prod.split)
  then show ?thesis
    using that by (auto intro!: within_and_then within_call within_calls within_ret network_moves_preorder
        simp: configure_engine_def network_action_def engine_config_of_def)
qed

lemma network_launch_within:
  assumes "\<not> is_dev config"
  shows "within network_moves (launch_node C config)"
proof -
  have branch: "configure_pipeline C config = network_pipeline C" using assms by (simp add: configure_pipeline_def fun_eq_iff)
  have services: "within network_moves (start_services C config)"
    unfolding start_services_def by (rule within_calls) (use assms in \<open>simp add: network_action_def\<close>)
  have clients: "within network_moves (etherscan_client C config)" "within network_moves (rpc_client config)"
    by (auto intro!: within_and_then within_call within_ret network_moves_preorder
        simp: etherscan_client_def rpc_client_def network_action_def split: option.split)
  have prep: "within network_moves (setup_context C)" "within network_moves (prepare_pipeline C)"
    unfolding setup_context_def prepare_pipeline_def
    by (rule within_calls, simp add: network_action_def)
      (auto intro!: within_and_then within_call within_ret network_moves_preorder simp: network_action_def)
  show ?thesis
    unfolding launch_node_def branch
    by (rule within_and_then[OF prep(1)], rule within_and_then[OF prep(2)], rule network_pipeline_within)
      (auto intro!: within_and_then services clients within_call within_ret network_moves_preorder simp: network_action_def)
qed

text \<open>outside dev mode no part of the Malachite node is built or spawned, whatever the outcome of the
  launch: the pipeline and the engine download from the network, and the task, the consumer and the chain
  are never started.\<close>

theorem network_launch_runs_no_chain:
  assumes "\<not> is_dev config" and "launch_node C config launch_start = (r, w)"
  shows "malachite w = None \<and> list_all network_action (actions w)"
  using withinD[OF network_launch_within[OF assms(1)] assms(2)] by (auto simp: network_moves_def launch_start_def)

theorem network_launch_runs_no_chain_witness:
  "\<exists>h w. launch_node toy_calls (toy_config False) launch_start = (Inr (Inr h), w :: (nat, unit) launch_world) \<and>
     malachite w = None \<and> list_all network_action (actions w)"
proof -
  obtain h and w :: "(nat, unit) launch_world" where
    run: "launch_node toy_calls (toy_config False) launch_start = (Inr (Inr h), w)"
    using toy_config_launch by blast
  moreover have "\<not> is_dev (toy_config False)" by (simp add: toy_config_def)
  ultimately show ?thesis using network_launch_runs_no_chain by blast
qed

text \<open>C16: a launch in dev mode whose pipeline cannot be built returns the pipeline's error but leaves the chain
  and the consumer running: they were spawned before. The task was not, and with it the receiver of the
  blocks is gone, so that the consumer panics at the first decision of peer 0 instead of relaying it.\<close>

theorem failed_pipeline_leaves_chain:
  assumes "is_dev config" and "setup_succeeds C" and "networked_pipeline C MalachiteDownloads = Inl e"
    and "ds (dec_height f) = Some v" and "dec_peer f = BasePeerAddress 0"
  shows "\<exists>w c. launch_node C config launch_start = (Inr (Inl e), w) \<and> malachite w = Some (c :: ('tx, 'db) components) \<and>
    filter is_spawn (actions w) = [SpawnBlocking ''chain'', SpawnCriticalBlocking ''malachite consumer''] \<and>
    pipe_line_events (malachite_task c) = None \<and>
    fst (consumer_handle (Finalized f)
      \<lparr>decisions = ds, to_task = (chain_rx (malachite_task c))\<lparr>rx_alive := False\<rparr>\<rparr>)
      = Inl (Expect ''unable to relay the newly produced block'')"
proof -
  obtain mb where mb: "max_block C = Inr mb" using assms(2) by (auto simp: setup_succeeds_def error_of_def split: sum.splits)
  let ?c = "MalachiteChainBuilder_build (MalachiteChainBuilder_new (db_latest_header C) (spec_genesis_header C)) :: ('tx, 'db) components"
  let ?acts = "[ConfigureGlobals, LoadTomlConfig, ResolvePeers, AttachDatabase, AdjustConfigs, ProviderFactory,
       PrometheusServer, InitGenesis, MetricsTask, BlockchainDb, BuildComponents, LaunchExExs, FetchClient,
       MaxBlock, AddStaticFileHook, BuildMalachite, SpawnBlocking ''chain'', SpawnCriticalBlocking ''malachite consumer'',
       BuildPipeline MalachiteDownloads]"
  have "launch_node C config launch_start = (Inr (Inl e), \<lparr>actions = ?acts, malachite = Some ?c\<rparr>)"
    using assms(1,2) mb
    by (simp add: dev_pipeline_fails[OF assms(3)] launch_node_def setup_context_def prepare_pipeline_def configure_pipeline_def setup_succeeds_def
        and_then_def call_def act_simps launch_start_def)
  then show ?thesis
    using assms(4,5)
    by (intro exI[of _ "\<lparr>actions = ?acts, malachite = Some ?c\<rparr>"] exI[of _ ?c])
      (simp add: is_spawn_def consumer_handle_def MalachiteChainBuilder_build_def MalachiteTask_new_def)
qed

theorem failed_pipeline_leaves_chain_witness:
  "\<exists>w c. launch_node (toy_calls\<lparr>networked_pipeline := (\<lambda>cl. Inl (Report ''stage''))\<rparr>) (toy_config True) launch_start
      = (Inr (Inl (Report ''stage'')), w) \<and> malachite w = Some (c :: (nat, unit) components) \<and>
    filter is_spawn (actions w) = [SpawnBlocking ''chain'', SpawnCriticalBlocking ''malachite consumer'']"
  using failed_pipeline_leaves_chain[of "toy_config True" "toy_calls\<lparr>networked_pipeline := (\<lambda>cl. Inl (Report ''stage''))\<rparr>"
      "Report ''stage''" "[BaseHeight 0 \<mapsto> \<lparr>value_id_u64 = 0, transactions = [42 :: nat]\<rparr>]"
      "\<lparr>dec_peer = BasePeerAddress 0, dec_value_id = BaseValueId 0, dec_height = BaseHeight 0\<rparr>"]
  by (fastforce simp: toy_config_def toy_calls_def setup_succeeds_def error_of_def)

end
