(* ===== verification/Formatting.thy ===== *)
theory Formatting
  imports Malachite_Api
begin

text \<open>
  The text that the program prints about consensus: the \<open>Display\<close> implementations of
  \<open>chain/context/*.rs\<close>, the derived \<open>Debug\<close> of \<open>BaseValue\<close>, and \<open>pretty_publish\<close> and
  \<open>pretty_verify_signature\<close> of \<open>chain/application.rs\<close>.

  Unsigned integers are printed in decimal, as the standard library does. How malachite prints its
  rounds, vote types, voted values and extensions, and how reth prints a transaction, is the
  parameter \<open>F\<close>. The reading functions at the end are the inverse that shows what a printed line
  determines.
\<close>

section \<open>Decimal numbers\<close>

definition digit :: "nat \<Rightarrow> char" where
  "digit d = char_of (48 + d)"

fun decimal :: "nat \<Rightarrow> string" where
  "decimal n = (if n < 10 then [digit n] else decimal (n div 10) @ [digit (n mod 10)])"

declare decimal.simps [simp del]

definition is_digit :: "char \<Rightarrow> bool" where
  "is_digit c \<longleftrightarrow> 48 \<le> (of_char c :: nat) \<and> (of_char c :: nat) < 58"

definition digit_value :: "char \<Rightarrow> nat" where
  "digit_value c = of_char c - 48"

definition read_decimal :: "string \<Rightarrow> nat option" where
  "read_decimal s =
     (if s \<noteq> [] \<and> list_all is_digit s then Some (foldl (\<lambda>acc c. 10 * acc + digit_value c) 0 s) else None)"

section \<open>Display and Debug\<close>

record 'tx formats =
  round_fmt :: "Round \<Rightarrow> string"
  vote_type_dbg :: "VoteType \<Rightarrow> string"
  vote_value_dbg :: "BaseValueId NilOrVal \<Rightarrow> string"
  extension_dbg :: "SignedExtension \<Rightarrow> string"
  tx_dbg :: "'tx \<Rightarrow> string"

definition address_fmt :: "BasePeerAddress \<Rightarrow> string" where
  "address_fmt a = ''peer '' @ decimal (unat (addr_u32 a))"

definition height_fmt :: "BaseHeight \<Rightarrow> string" where
  "height_fmt h = decimal (unat (height_u64 h))"

definition value_id_fmt :: "BaseValueId \<Rightarrow> string" where
  "value_id_fmt v = decimal (unat (vid_u64 v))"

definition peer_fmt :: "BasePeer \<Rightarrow> string" where
  "peer_fmt p = ''peer '' @ address_fmt (peer_addr p)"

text \<open>\<open>Debug\<close> of a vector and of an option, and the derived \<open>Debug\<close> of a value.\<close>

fun list_items_dbg :: "('a \<Rightarrow> string) \<Rightarrow> 'a list \<Rightarrow> string" where
  "list_items_dbg f [] = ''''"
| "list_items_dbg f [x] = f x"
| "list_items_dbg f (x # y # xs) = f x @ '', '' @ list_items_dbg f (y # xs)"

definition list_dbg :: "('a \<Rightarrow> string) \<Rightarrow> 'a list \<Rightarrow> string" where
  "list_dbg f xs = ''['' @ list_items_dbg f xs @ '']''"

definition option_dbg :: "('a \<Rightarrow> string) \<Rightarrow> 'a option \<Rightarrow> string" where
  "option_dbg f x = (case x of None \<Rightarrow> ''None'' | Some y \<Rightarrow> ''Some('' @ f y @ '')'')"

definition value_dbg :: "'tx formats \<Rightarrow> 'tx BaseValue \<Rightarrow> string" where
  "value_dbg F v =
     ''BaseValue { id: '' @ decimal (unat (value_id_u64 v)) @ '', transactions: ''
       @ list_dbg (tx_dbg F) (transactions v) @ '' }''"

definition proposal_fmt :: "'tx formats \<Rightarrow> 'tx BaseProposal \<Rightarrow> string" where
  "proposal_fmt F p =
     ''Proposal / '' @ height_fmt (prop_height p) @ '' / '' @ round_fmt F (prop_round p) @ '' / ''
       @ value_dbg F (prop_value p) @ '' / <- '' @ address_fmt (prop_proposer p)"

definition vote_fmt :: "'tx formats \<Rightarrow> BaseVote \<Rightarrow> string" where
  "vote_fmt F v =
     vote_type_dbg F (vote_type v) @ '' / '' @ height_fmt (vote_height v) @ '' / '' @ round_fmt F (vote_round v)
       @ '' / '' @ vote_value_dbg F (vote_value_id v) @ '' / '' @ address_fmt (voter v)
       @ '' X['' @ option_dbg (extension_dbg F) (extension v) @ '']''"

text \<open>The descriptions of a message that is published and of one that is verified.\<close>

definition pretty_publish :: "'tx formats \<Rightarrow> 'tx SignedConsensusMsg \<Rightarrow> string" where
  "pretty_publish F m =
     (case m of SignedVote sv \<Rightarrow> vote_fmt F (message sv) | SignedProposal sp \<Rightarrow> proposal_fmt F (message sp))"

definition pretty_verify_signature :: "'tx formats \<Rightarrow> 'tx ConsensusMsg SignedMessage \<Rightarrow> string" where
  "pretty_verify_signature F m =
     (case message m of MsgVote v \<Rightarrow> vote_fmt F v | MsgProposal p \<Rightarrow> proposal_fmt F p)"

section \<open>Reading back\<close>

text \<open>The height and the proposer of a printed proposal.\<close>

definition read_height :: "string \<Rightarrow> BaseHeight option" where
  "read_height s = map_option (\<lambda>n. BaseHeight (of_nat n)) (read_decimal s)"

definition read_address :: "string \<Rightarrow> BasePeerAddress option" where
  "read_address s =
     (if take 5 s = ''peer '' then map_option (\<lambda>n. BasePeerAddress (of_nat n)) (read_decimal (drop 5 s)) else None)"

definition line_height :: "string \<Rightarrow> BaseHeight option" where
  "line_height s = read_height (takeWhile is_digit (drop 11 s))"

definition line_proposer :: "string \<Rightarrow> BasePeerAddress option" where
  "line_proposer s =
     map_option (\<lambda>n. BasePeerAddress (of_nat n)) (read_decimal (rev (takeWhile is_digit (rev s))))"

section \<open>Lemmas\<close>

lemma is_digit_digit [simp]: "d < 10 \<Longrightarrow> is_digit (digit d)"
  by (simp add: is_digit_def digit_def)

lemma digit_value_digit [simp]: "d < 10 \<Longrightarrow> digit_value (digit d) = d"
  by (simp add: digit_value_def digit_def)

lemma decimal_digits: "decimal n \<noteq> [] \<and> list_all is_digit (decimal n)"
proof (induction n rule: decimal.induct)
  case (1 n)
  then show ?case by (cases "n < 10") (simp_all add: decimal.simps[of n])
qed

lemma decimal_value: "foldl (\<lambda>acc c. 10 * acc + digit_value c) 0 (decimal n) = n"
proof (induction n rule: decimal.induct)
  case (1 n)
  then show ?case by (cases "n < 10") (simp_all add: decimal.simps[of n])
qed

lemma read_decimal_decimal [simp]: "read_decimal (decimal n) = Some n"
  using decimal_digits by (simp add: read_decimal_def decimal_value)

lemma takeWhile_digits:
  assumes "\<forall>c\<in>set ds. is_digit c"
  shows "takeWhile is_digit (ds @ CHR '' '' # s) = ds"
proof -
  have "\<not> is_digit (CHR '' '')" by (simp add: is_digit_def)
  with assms show ?thesis by (induction ds) simp_all
qed

lemma takeWhile_decimal:
  "takeWhile is_digit (decimal n @ CHR '' '' # s) = decimal n"
  "takeWhile is_digit (rev (decimal n) @ CHR '' '' # s) = rev (decimal n)"
  using takeWhile_digits[of "decimal n"] takeWhile_digits[of "rev (decimal n)"] decimal_digits[of n]
  by (simp_all add: list_all_iff)

lemma read_height_fmt: "read_height (height_fmt h) = Some h"
  by (cases h) (simp add: read_height_def height_fmt_def)

lemma read_address_fmt: "read_address (address_fmt a) = Some a"
  by (cases a) (simp add: read_address_def address_fmt_def)

lemma line_height_proposal: "line_height (proposal_fmt F p) = Some (prop_height p)"
  using read_height_fmt[of "prop_height p"]
  by (simp add: line_height_def proposal_fmt_def height_fmt_def takeWhile_decimal)

lemma line_proposer_proposal: "line_proposer (proposal_fmt F p) = Some (prop_proposer p)"
  by (cases "prop_proposer p")
    (simp add: line_proposer_def proposal_fmt_def address_fmt_def takeWhile_decimal)

section \<open>Properties\<close>

text \<open>what is printed can be read back: a printed height, identifier or address determines the number
  it was printed from, and the line printed for a published proposal determines the proposal's height and
  its proposer, however rounds and transactions are printed.\<close>

theorem printed_lines_read_back:
  "read_height (height_fmt h) = Some h \<and> read_address (address_fmt a) = Some a \<and>
   read_decimal (value_id_fmt (BaseValueId i)) = Some (unat i) \<and>
   line_height (pretty_publish F (SignedProposal sp)) = Some (prop_height (message sp)) \<and>
   line_proposer (pretty_publish F (SignedProposal sp)) = Some (prop_proposer (message sp)) \<and>
   pretty_verify_signature F \<lparr>message = MsgProposal (message sp), signature = signature sp\<rparr>
     = pretty_publish F (SignedProposal sp)"
  by (simp add: read_height_fmt read_address_fmt value_id_fmt_def pretty_publish_def line_height_proposal
      line_proposer_proposal pretty_verify_signature_def)

text \<open>The printed form of a peer repeats the word that its address already prints.\<close>

lemma peer_fmt_doubles: "peer_fmt (BasePeer_new i pk) = ''peer peer '' @ decimal (unat i)"
  by (simp add: peer_fmt_def BasePeer_new_def BasePeerAddress_new_def address_fmt_def)

lemma peer_fmt_example: "peer_fmt (BasePeer_new 12 pk) = ''peer peer 12''"
  by (simp add: peer_fmt_doubles decimal.simps digit_def char_of_def bit_0)

end
