(* ===== verification/Node_Main.thy ===== *)
theory Node_Main
  imports Launcher Formatting
begin

text \<open>
  \<open>main.rs\<close>: the configuration of the node, the custom genesis, the one transaction that is submitted,
  and the loop that prints every new canonical block.

  Parsing the genesis document into a chain specification and the node's transaction pool belong to
  serde and reth and are parameters. The document itself is a JSON value here, the hexadecimal
  literals are decoded as the \<open>hex!\<close> and \<open>b256!\<close> macros do. What \<open>main\<close> prints is the list of its lines.
\<close>

section \<open>Literals\<close>

definition hex_digit :: "char \<Rightarrow> nat" where
  "hex_digit c = (let n = of_char c :: nat in if n < 58 then n - 48 else if n < 71 then n - 55 else n - 87)"

fun hex_bytes :: "string \<Rightarrow> bytes" where
  "hex_bytes (a # b # cs) = of_nat (16 * hex_digit a + hex_digit b) # hex_bytes cs"
| "hex_bytes cs = []"

definition hex_number :: "string \<Rightarrow> nat" where
  "hex_number cs = foldl (\<lambda>acc c. 16 * acc + hex_digit c) 0 cs"

definition raw_tx :: bytes where
  "raw_tx = hex_bytes (''02f876820a28808477359400847735940082520894ab0840c0e43688012c1adb0f5e3fc665188f83d2''
     @ ''8a029d394a5d630544000080c080a0a044076b7e67b5deecc63f61a8d7913fab86ca365b344b5759d1fe3563b4c39e''
     @ ''a019eab979dd000da04dfc72bb0377c092d30fd9e1cab5ae487de49586cc8b0090'')"

definition expected_hash :: B256 where
  "expected_hash = of_nat (hex_number ''b1c6512f4fc202c04355fbda66755e0e344b152e633010e8fd75ecec09b63398'')"

section \<open>custom\_chain\<close>

datatype json = JString string | JNumber nat | JBool bool | JObject "(string \<times> json) list"

definition custom_genesis :: json where
  "custom_genesis = JObject
     [(''nonce'', JString ''0x42''),
      (''timestamp'', JString ''0x0''),
      (''extraData'', JString ''0x5343''),
      (''gasLimit'', JString ''0xa388''),
      (''difficulty'', JString ''0x400000000''),
      (''mixHash'', JString ''0x0000000000000000000000000000000000000000000000000000000000000000''),
      (''coinbase'', JString ''0x0000000000000000000000000000000000000000''),
      (''alloc'', JObject
        [(''0x6Be02d1d3665660d22FF9624b7BE0551ee1Ac91b'', JObject
          [(''balance'', JString ''0x4a47e3c12448f4ad000000'')])]),
      (''number'', JString ''0x0''),
      (''gasUsed'', JString ''0x0''),
      (''parentHash'', JString ''0x0000000000000000000000000000000000000000000000000000000000000000''),
      (''config'', JObject
        [(''ethash'', JObject []),
         (''chainId'', JNumber 2600),
         (''homesteadBlock'', JNumber 0),
         (''eip150Block'', JNumber 0),
         (''eip155Block'', JNumber 0),
         (''eip158Block'', JNumber 0),
         (''byzantiumBlock'', JNumber 0),
         (''constantinopleBlock'', JNumber 0),
         (''petersburgBlock'', JNumber 0),
         (''istanbulBlock'', JNumber 0),
         (''berlinBlock'', JNumber 0),
         (''londonBlock'', JNumber 0),
         (''terminalTotalDifficulty'', JNumber 0),
         (''terminalTotalDifficultyPassed'', JBool True),
         (''shanghaiTime'', JNumber 0)])]"

text \<open>\<open>serde_json::from_str(..).unwrap()\<close>, then the conversion into a chain specification.\<close>

definition custom_chain :: "(json \<Rightarrow> 'e + 'g) \<Rightarrow> ('g \<Rightarrow> 'spec) \<Rightarrow> panic + 'spec" where
  "custom_chain from_json spec_of =
     (case from_json custom_genesis of Inl _ \<Rightarrow> Inl UnwrapErr | Inr genesis \<Rightarrow> Inr (spec_of genesis))"

section \<open>main\<close>

record DevArgs =
  dev :: bool
  block_max_transactions :: "nat option"
  block_time :: "nat option" \<comment> \<open>in seconds\<close>

record 'spec main_config =
  dev_args :: DevArgs
  http :: bool
  chain :: 'spec
  debug_config :: DebugArgs

text \<open>\<open>NodeConfig::test().dev()\<close> is the argument \<open>base\<close>, of which the debug arguments stay.\<close>

definition node_config :: "DebugArgs \<Rightarrow> 'spec \<Rightarrow> 'spec main_config" where
  "node_config base spec =
     \<lparr>dev_args = \<lparr>dev = True, block_max_transactions = None, block_time = Some 1\<rparr>, http = True,
      chain = spec, debug_config = base\<rparr>"

definition launcher_config :: "'spec main_config \<Rightarrow> NodeConfig" where
  "launcher_config mc = \<lparr>is_dev = dev (dev_args mc), debug_args = debug_config mc\<rparr>"

record ('spec, 'e, 'g) main_env =
  genesis_from_json :: "json \<Rightarrow> 'e + 'g"
  chain_spec_of :: "'g \<Rightarrow> 'spec"
  test_debug_args :: DebugArgs
  node_calls :: "'spec main_config \<Rightarrow> launch_calls"
  send_raw_transaction :: "bytes \<Rightarrow> eyre + B256"
  hash_fmt :: "B256 \<Rightarrow> string"
  canonical_state_stream :: "(u64 \<times> nat) channel" \<comment> \<open>number and transaction count of each new tip\<close>

datatype main_outcome = MainReturned "eyre + unit" | MainPanicked panic | MainWaiting

definition block_line :: "u64 \<times> nat \<Rightarrow> string" where
  "block_line head =
     ''main: block finalized & executed: height='' @ decimal (unat (fst head)) @ '', tx count='' @ decimal (snd head)"

text \<open>The loop over the notifications.\<close>

function main_loop :: "(u64 \<times> nat) channel \<Rightarrow> main_outcome \<times> string list" where
  "main_loop notifications =
     (case chan_recv notifications of
        (Item head, ch) \<Rightarrow> (let (out, ls) = main_loop ch in (out, block_line head # ls))
      | (Empty, ch) \<Rightarrow> (MainWaiting, [])
      | (Disconnected, ch) \<Rightarrow> (MainPanicked UnwrapNone, []))"
  by pat_completeness auto
termination
  by (relation "measure (\<lambda>ch. length (items ch))") (auto simp: chan_recv_def split: list.splits if_splits)

declare main_loop.simps [simp del]

definition submit_transaction :: "('spec, 'e, 'g) main_env \<Rightarrow> main_outcome \<times> string list" where
  "submit_transaction V =
     (case send_raw_transaction V raw_tx of
        Inl e \<Rightarrow> (MainReturned (Inl e), [])
      | Inr hash \<Rightarrow>
          if hash \<noteq> expected_hash then (MainPanicked AssertFailed, [])
          else (let (out, ls) = main_loop (canonical_state_stream V)
                in (out, (''main: submitted transaction with hash '' @ hash_fmt V hash) # ls)))"

definition main ::
  "('spec, 'e, 'g) main_env \<Rightarrow> main_outcome \<times> string list \<times> ('tx, 'db) launch_world" where
  "main V =
     (case custom_chain (genesis_from_json V) (chain_spec_of V) of
        Inl p \<Rightarrow> (MainPanicked p, [], launch_start)
      | Inr spec \<Rightarrow>
          (let mc = node_config (test_debug_args V) spec;
               (r, w) = launch_node (node_calls V mc) (launcher_config mc) launch_start
           in case r of
                Inl p \<Rightarrow> (MainPanicked p, [''created the node config''], w)
              | Inr (Inl e) \<Rightarrow> (MainReturned (Inl e), [''created the node config''], w)
              | Inr (Inr h) \<Rightarrow>
                  (let (out, ls) = submit_transaction V in (out, ''created the node config'' # ls, w))))"

section \<open>Lemmas\<close>

lemma main_loop_lines:
  "main_loop ch = (if tx_alive ch then MainWaiting else MainPanicked UnwrapNone, map block_line (items ch))"
proof (induction ch rule: main_loop.induct)
  case (1 ch)
  show ?case
  proof (cases "items ch")
    case Nil
    then show ?thesis by (subst main_loop.simps) simp
  next
    case (Cons head hs)
    then have "chan_recv ch = (Item head, ch\<lparr>items := hs\<rparr>)" by simp
    with 1 Cons show ?thesis by (subst main_loop.simps) simp
  qed
qed

lemma launcher_config_dev: "is_dev (launcher_config (node_config base spec))"
  by (simp add: launcher_config_def node_config_def)

text \<open>Nothing before or in the loop makes \<open>main\<close> return successfully.\<close>

lemma submit_never_ok: "submit_transaction V = (out, ls) \<Longrightarrow> out \<noteq> MainReturned (Inr u)"
  by (auto simp: submit_transaction_def main_loop_lines split: sum.splits if_splits)

section \<open>The submitted transaction\<close>

text \<open>
  What the literal says, by the public encoding of a fee market transaction (EIP-1559): the type
  byte and the RLP list of its fields.
\<close>

fun nat_bytes :: "nat \<Rightarrow> bytes" where
  "nat_bytes n = (if n = 0 then [] else nat_bytes (n div 256) @ [of_nat n])"

declare nat_bytes.simps [simp del]

definition rlp_string :: "bytes \<Rightarrow> bytes" where
  "rlp_string bs =
     (if length bs = 1 \<and> hd bs < 128 then bs else of_nat (128 + length bs) # bs)"

definition rlp_list :: "bytes \<Rightarrow> bytes" where
  "rlp_list content =
     (if length content < 56 then of_nat (192 + length content) # content
      else of_nat (247 + length (nat_bytes (length content))) # nat_bytes (length content) @ content)"

record transfer =
  tx_chain_id :: nat
  tx_nonce :: nat
  max_priority_fee :: nat
  max_fee :: nat
  gas_limit_of :: nat
  recipient :: bytes
  amount :: nat

definition transfer_encoding :: "transfer \<Rightarrow> nat \<Rightarrow> nat \<Rightarrow> nat \<Rightarrow> bytes" where
  "transfer_encoding t y r s =
     2 # rlp_list
       (rlp_string (nat_bytes (tx_chain_id t)) @ rlp_string (nat_bytes (tx_nonce t)) @
        rlp_string (nat_bytes (max_priority_fee t)) @ rlp_string (nat_bytes (max_fee t)) @
        rlp_string (nat_bytes (gas_limit_of t)) @ rlp_string (recipient t) @ rlp_string (nat_bytes (amount t)) @
        rlp_string [] @ rlp_list [] @ rlp_string (nat_bytes y) @ rlp_string (nat_bytes r) @ rlp_string (nat_bytes s))"

definition submitted :: transfer where
  "submitted =
     \<lparr>tx_chain_id = 2600, tx_nonce = 0, max_priority_fee = 2000000000, max_fee = 2000000000,
      gas_limit_of = 21000, recipient = hex_bytes ''ab0840c0e43688012c1adb0f5e3fc665188f83d2'',
      amount = 12345 * 10 ^ 18\<rparr>"

text \<open>Looking up a field of the genesis document.\<close>

fun json_at :: "json \<Rightarrow> string list \<Rightarrow> json option" where
  "json_at j [] = Some j"
| "json_at (JObject members) (k # ks) = Option.bind (map_of members k) (\<lambda>j. json_at j ks)"
| "json_at j (k # ks) = None"

definition json_quantity :: "json \<Rightarrow> nat option" where
  "json_quantity j = (case j of JNumber n \<Rightarrow> Some n | JString s \<Rightarrow> Some (hex_number (drop 2 s)) | _ \<Rightarrow> None)"

definition genesis_quantity :: "string list \<Rightarrow> nat option" where
  "genesis_quantity path = Option.bind (json_at custom_genesis path) json_quantity"

lemma nat_bytes_numeral [simp]:
  "nat_bytes 0 = []" "nat_bytes (numeral k) = nat_bytes (numeral k div 256) @ [of_nat (numeral k)]"
  "nat_bytes (Suc 0) = [1]"
  by (subst nat_bytes.simps; simp)+

lemma rlp_list_short [simp]: "rlp_list [] = [192]"
  by (simp add: rlp_list_def)

lemma rlp_list_long:
  assumes "length content = n" "56 \<le> n" "n < 256"
  shows "rlp_list content = 248 # of_nat n # content"
proof -
  have "nat_bytes n = [of_nat n]" using assms by (subst nat_bytes.simps) simp
  with assms show ?thesis by (simp add: rlp_list_def)
qed

lemma submitted_encoding:
  "raw_tx = transfer_encoding submitted 0
     72490252583978285940906014154204070889272437483647241415976441409215057413022
     11722543536241542977177891730354056995886225433383843699301299306322004213904"
  unfolding transfer_encoding_def
  by (subst rlp_list_long[where n = 118])
    (simp_all add: raw_tx_def submitted_def hex_digit_def rlp_string_def Let_def)

section \<open>Properties\<close>


text \<open>An environment of \<open>main\<close> in which everything succeeds and two blocks are announced.\<close>

definition toy_main_env :: "(unit, unit, unit) main_env" where
  "toy_main_env =
     \<lparr>genesis_from_json = (\<lambda>j. Inr ()), chain_spec_of = id, test_debug_args = debug_args (toy_config True),
      node_calls = (\<lambda>mc. toy_calls), send_raw_transaction = (\<lambda>tx. Inr expected_hash), hash_fmt = (\<lambda>h. ''0xb1''),
      canonical_state_stream = \<lparr>items = [(1, 0), (2, 1)], rx_alive = True, tx_alive = True\<rparr>\<rparr>"

lemma toy_main_launch:
  "launcher_config (node_config (test_debug_args toy_main_env) ()) = toy_config True"
  by (simp add: launcher_config_def node_config_def toy_main_env_def toy_config_def)


text \<open>\<open>main\<close> never returns successfully: it waits for ever, ends with an error of the launch or of the
  submission, or panics.\<close>

theorem main_never_returns_ok: "fst (main V) \<noteq> MainReturned (Inr ())"
  using submit_never_ok[of V]
  by (auto simp: main_def Let_def split: sum.splits prod.splits)

text \<open>the literals of \<open>main.rs\<close> fit together: the submitted bytes are a signed transfer for the chain
  identifier of the custom genesis with the first nonce, its gas limit fits into the genesis gas limit, and
  the only funded account can pay its amount and its fees.\<close>

theorem submitted_transaction_fits_genesis:
  "raw_tx = transfer_encoding submitted 0
     72490252583978285940906014154204070889272437483647241415976441409215057413022
     11722543536241542977177891730354056995886225433383843699301299306322004213904 \<and>
   genesis_quantity [''config'', ''chainId''] = Some (tx_chain_id submitted) \<and> tx_nonce submitted = 0 \<and>
   (\<exists>gas balance. genesis_quantity [''gasLimit''] = Some gas \<and> gas_limit_of submitted \<le> gas \<and>
      genesis_quantity [''alloc'', ''0x6Be02d1d3665660d22FF9624b7BE0551ee1Ac91b'', ''balance''] = Some balance \<and>
      amount submitted + gas_limit_of submitted * max_fee submitted \<le> balance)"
  by (simp add: submitted_encoding genesis_quantity_def custom_genesis_def json_quantity_def submitted_def hex_number_def
      hex_digit_def)

end
