(* ===== verification/Spec2Isabelle.thy ===== *)
theory Spec2Isabelle
  imports Node_Main
begin

text \<open>
  \<^bold>\<open>A verification of rem (reth + malachite, proof of concept)\<close>

  The program runs a simulated malachite consensus network inside a process and executes the decided
  blocks with reth. Its parts, all under \<open>src/src/\<close>:

  \<^item> \<open>chain/context.rs\<close>, \<open>chain/context/*.rs\<close>, \<open>chain/decision.rs\<close>: the data model of the
    consensus side. \<open>Signing_Scheme\<close> models the Ed25519 wrapper and \<open>Consensus_Context\<close> the other files,
    one definition per function, under the names of the source; \<open>Formatting\<close> has their printed forms and
    the two functions of \<open>application.rs\<close> that describe a message.
  \<^item> \<open>chain/application.rs\<close>: the application at one peer, which carries out the effects of the
    consensus library. \<open>Malachite_Api\<close> is the interface of that library; \<open>Application\<close> has one action
    per handler, \<open>handle_effect\<close> with all its arms, and \<open>apply_input\<close>.
  \<^item> \<open>chain/simulator.rs\<close>: the network of peers. \<open>Simulator\<close> has construction, initialisation and
    the step, and the step relations \<open>sim_move\<close> and \<open>sim_trace\<close> with the other threads as environment.
  \<^item> \<open>chain.rs\<close>: the consumer of decisions and the block builder (\<open>Chain_Consumer\<close>), the builder that
    wires everything and the chain future (\<open>Node\<close>).
  \<^item> \<open>chain/storage.rs\<close>: the in-memory chain (\<open>Chain_Storage\<close>).
  \<^item> \<open>chain/client.rs\<close>: the download client (\<open>Download_Client\<close>).
  \<^item> \<open>chain/task.rs\<close>: the execution task (\<open>Mining_Task\<close>).
  \<^item> \<open>mac.rs\<close> (all validation answers are \<open>Ok\<close>) and the lines of \<open>launcher.rs\<close> that start the
    threads are in \<open>Node\<close>; its step relation \<open>node_move\<close> interleaves the four threads up to the first
    panic, \<open>process_move\<close> of \<open>Node_Failures\<close> goes on after panics: a thread that ends drops its channel
    ends, which is all that the others notice.
  \<^item> \<open>launcher.rs\<close>: \<open>launch_node\<close> as the sequence of its calls with every early return (\<open>Launcher\<close>). A
    call of reth is recorded in the list of actions, its outcome is a parameter (\<open>launch_calls\<close>); the
    Malachite components it builds are those of \<open>Node\<close>.
  \<^item> \<open>main.rs\<close>: the configuration, the genesis document, the submitted transaction and the loop over the
    notifications, with the printed lines (\<open>Node_Main\<close>).

  A decided block travels: block builder, proposals channel, simulator (a proposal, votes, a
  decision), decision channel, consumer, task channel, task, storage; the engine then fetches it from
  the storage through the client. \<open>Channels\<close> models the channels; \<open>Rem_Prelude\<close> the machine integers,
  the panics and the actions (state passing with panics) in which handlers are written.

  \<^bold>\<open>Conventions.\<close> A panic is the value \<open>Inl\<close> of an action, a Rust \<open>Err\<close> is an \<open>Inl\<close> inside the
  result; the state at the time of a panic is kept. An unsigned addition takes the flag \<open>oc\<close>
  (overflow checks on: panic; off: wrap), so the theorems cover both build profiles. Integers keep
  their width: heights, block numbers and value identifiers are 64-bit words, addresses 32-bit words,
  hashes 256-bit words. \<open>HashMap\<close>s are maps; where iteration order shows (\<open>block_hash\<close>) the order is
  a parameter.

  \<^bold>\<open>Parameters.\<close> Code outside the repository is an argument: the crate \<open>ed25519_consensus\<close>
  (\<open>ed25519\<close>; what is used of it: \<open>ed_correct\<close>, \<open>ed_codec\<close>), the library
  \<open>malachite_core_consensus\<close> (\<open>consensus_lib\<close>, whose calls are coroutines of a codatatype; what is used:
  \<open>lib_keeps_params\<close>, \<open>completes\<close>), reth's hashing, roots, fees, execution and state (\<open>reth\<close>,
  \<open>executor\<close>, \<open>ChainSpec\<close>; what is used: \<open>hash_separates\<close>, and \<open>builds\<close> for the liveness
  theorems), the outcomes of reth's calls during the launch (\<open>launch_calls\<close>) and in \<open>main\<close>
  (\<open>main_env\<close>), and how other crates print their types (\<open>formats\<close>). Each theory that needs them ends with concrete instances, on which the assumptions of its
  theorems are discharged.

  \<^bold>\<open>Loops.\<close> \<open>consumer_run\<close>, \<open>task_poll\<close>, \<open>fetch_loop\<close>, \<open>fcu_wait\<close> and \<open>main_loop\<close> are total: their measures are
  the queued messages, the unfinished blocks, the request's limit, the answers that are ready and the
  notifications. Waiting for more is a result (\<open>Awaiting\<close>, \<open>FutPending\<close>, \<open>Blocked\<close>, \<open>MainWaiting\<close>). \<open>drive\<close>, the loop around the
  library's effects, is a \<open>partial_function\<close>; it is proved to return when the library's coroutine
  completes. No definition uses fuel.

  \<^bold>\<open>What is shown.\<close>
  \<^item> Node: the launch; the end-to-end contract that the executed chain consists of the decided
    blocks in order, and that a responsive environment lets the node catch up; every head announced to
    the engine can be downloaded; values reach consensus in the order they were built, none twice
    (this theory).
  \<^item> Failures: whatever threads panic and when, the chain keeps the order of the decisions; when the
    chain thread ends the node runs down in a bounded number of moves; what then waits in the task is
    lost (\<open>Node_Failures\<close>).
  \<^item> Launcher and main: the first error ends the launch and is what it returns; dev mode starts the
    node of the theorems above, other modes start no part of it; a failed pipeline leaves the chain
    running; \<open>main\<close> prints every new block in order and never returns successfully; the submitted
    transaction carries the chain identifier of the genesis document, whose funded account can pay for it.
  \<^item> Storage and client: insertion and building refine appending to an abstract chain
    (\<open>chain_repr\<close>); failures change nothing; header walks and body requests return that chain.
  \<^item> Task: order and conservation of blocks, no lost wake-up, liveness, the forkchoice protocol.
  \<^item> Consumer and builder: refinement of a specification over the whole decision stream; numbering.
  \<^item> Simulator and application: reachable states are well-formed and lookups never fail, first in
    first out delivery, progress; what each handler sends on every branch.
  \<^item> Context: heights, peer sets and quorums, signatures, the laws of the comparisons, and that
    printed lines can be read back.

  Interfaces are locales, each interpreted on the model: \<open>fifo\<close> (three kinds of queue), \<open>rust_ord\<close> (the
  contract of Rust's comparison traits, for signatures and values),
  \<open>height_trait\<close>, \<open>validator_set\<close>, \<open>header_chain\<close> and its extension \<open>block_source\<close> (the storage as
  seen by the client).

  \<^bold>\<open>Not modelled.\<close> Logging through \<open>tracing\<close> and the lines that \<open>chain.rs\<close> and the simulator write to the
  console; the counters behind the metrics; derived \<open>Clone\<close>, \<open>Hash\<close> and serde implementations; the
  reader-writer lock itself (its holders' operations are atomic here, waiting for it is a state of the insert future); what
  reth does inside the calls that the launcher and the task make; the test module of the simulator, which
  does not fit the current signatures.
\<close>

section \<open>Properties of the whole node\<close>

lemma launched_run_inv:
  assumes "lib_keeps_params lib" and "hash_separates R (initial_header latest_header genesis)"
    and "launch E rng lib latest_header genesis events = Inr n0" and "node_run oc E lib R X spec ds n0 n"
  shows "node_inv R (initial_header latest_header genesis) ds n"
  using node_run_inv[OF assms(2,4)] launched_inv assms(3) unfolding launch_ok[OF assms(1)] by blast



text \<open>C3: every head that the task announced to the engine can be downloaded. In every reachable state of
  the node, each forkchoice update in the task's log names a stored block; a falling header request from
  its hash returns that block and its ancestors down to the first block after the initial one, and a body
  request for its hash returns its body.\<close>

theorem forkchoice_head_downloadable:
  assumes "lib_keeps_params lib" and "hash_separates R (initial_header latest_header genesis)"
    and "launch E rng lib latest_header genesis events = Inr n0" and "node_run oc E lib R X spec ds n0 n"
    and "unat (number (header_of (initial_header latest_header genesis))) + length (relayed ds) + 1 < 2 ^ 64"
    and "ForkchoiceUpdated f \<in> set (log (task n))" and "iteration_order order"
  shows "\<exists>bs i. chain_repr R (initial_header latest_header genesis) bs (storage (task n)) \<and> i < length bs \<and>
    head_block_hash f = hash_slow R (fst (bs ! i)) \<and>
    fetch_headers oc order (storage (task n)) \<lparr>start = Hash (head_block_hash f), limit = l, direction = Falling\<rparr>
      = Inr (take (unat l) (rev (take (Suc i) (map fst bs)))) \<and>
    fetch_bodies (storage (task n)) [head_block_hash f] = [snd (bs ! i)]"
proof -
  let ?init = "initial_header latest_header genesis"
  obtain bs where exec: "exec_inv R ?init (relayed ds) bs (task n)"
    using launched_run_inv[OF assms(1-4)] assms(5) by (auto simp: node_inv_def)
  then have repr: "chain_repr R ?init bs (storage (task n))"
    and "event_ok (sealed_blocks R bs) (ForkchoiceUpdated f)"
    using assms(6) by (auto simp: exec_inv_def task_inv_def list_all_iff)
  then obtain i where i: "i < length bs" "head_block_hash f = hash_slow R (fst (bs ! i))"
    by (auto simp: sealed_blocks_def forkchoice_state_def in_set_conv_nth)
  have room: "unat (best_block (storage (task n))) + 1 < 2 ^ 64"
    using exec_inv_length[OF exec] assms(5) by linarith
  have "fetch_headers oc order (storage (task n)) \<lparr>start = Hash (head_block_hash f), limit = l, direction = Falling\<rparr>
      = Inr (take (unat l) (rev (take (Suc i) (map fst bs))))"
    using fetch_headers_from[OF repr i(1) assms(7)] storage_source.falling_walk[OF serves_chain[OF repr room], of i] i
    by simp
  moreover have "fetch_bodies (storage (task n)) [head_block_hash f] = [snd (bs ! i)]"
    using bodies_nth[OF repr i(1)] i(2) by simp
  ultimately show ?thesis using repr i by blast
qed

theorem forkchoice_head_downloadable_witness:
  "\<exists>n f header body.
     node_run True toy_ed25519 deciding_lib toy_reth toy_executor (toy_spec False) toy_steps toy_node n \<and>
     ForkchoiceUpdated f \<in> set (log (task n)) \<and>
     fetch_bodies (storage (task n)) [head_block_hash f] = [body] \<and>
     fetch_headers True id (storage (task n)) \<lparr>start = Hash (head_block_hash f), limit = 1, direction = Falling\<rparr> = Inr [header]"
proof -
  obtain n new where n: "node_run True toy_ed25519 deciding_lib toy_reth toy_executor (toy_spec False) toy_steps toy_node n"
    "blocks_txs new = [[42 :: nat]]" "log (task n) = concat (map (block_events toy_reth) new)"
    using toy_node_executes by blast
  obtain hb where "new = [hb]" using n(2) by (cases new) (auto simp: blocks_txs_def)
  then obtain f where f: "ForkchoiceUpdated f \<in> set (log (task n))"
    using n(3) by (auto simp: block_events_def Let_def)
  have init: "initial_header (Inr None) toy_genesis = toy_genesis" by (simp add: initial_header_def)
  have room: "unat (number (header_of toy_genesis)) + length (relayed toy_steps) + 1 < 2 ^ 64"
    by (simp add: toy_steps_relayed toy_genesis_def blank_header_def)
  have "iteration_order (id :: (B256 \<times> BlockNumber) list \<Rightarrow> _)" by simp
  then obtain bs i where i: "i < length bs" and fetched:
    "fetch_headers True id (storage (task n)) \<lparr>start = Hash (head_block_hash f), limit = 1, direction = Falling\<rparr>
      = Inr (take (unat (1 :: u64)) (rev (take (Suc i) (map fst bs))))"
    "fetch_bodies (storage (task n)) [head_block_hash f] = [snd (bs ! i)]"
    using forkchoice_head_downloadable[OF deciding_lib_keeps _ toy_node_launch n(1), unfolded init,
        OF toy_separates room f, of id 1] by blast
  have "take (unat (1 :: u64)) (rev (take (Suc i) (map fst bs))) = [fst (bs ! i)]"
    using i by (simp add: take_Suc_conv_app_nth)
  then show ?thesis using n(1) f fetched by auto
qed



text \<open>C27: from proposal to relay: when a peer publishes a proposal to a non-empty validator set and peer 0
  then decides at the proposal's height, the consumer, started on what the two handlers announced, relays
  the transactions of that proposal once, although the proposal was announced once per validator.\<close>

theorem published_and_decided_is_relayed:
  assumes "rx_alive (network w)" and "rx_alive (decision_steps w)" and "items (decision_steps w) = []"
    and "rx_alive tt" and "peers (initial_validator_set params) \<noteq> []" and "peer_id peer0 = BasePeerAddress 0"
    and "cert_height cert = prop_height (message sp)" and "unat (height_u64 (cert_height cert)) < 2 ^ 64 - 1"
  shows "\<exists>w1 w2 r ch' c. handle_publish self (SignedProposal sp) params w = (Inr (Inr Continue), w1) \<and>
    handle_decide oc peer0 cert params' w1 = (Inr (Inr Continue), w2) \<and>
    consumer_run (decision_steps w2) (consumer_new tt) = (r, ch', c) \<and> (\<forall>p. r \<noteq> Panicked p) \<and>
    items (to_task c) = items tt @ [transactions (prop_value (message sp))]"
proof -
  obtain m where m: "length (peers (initial_validator_set params)) = Suc m"
    using assms(5) by (cases "peers (initial_validator_set params)") auto
  let ?pv = "proposed_value_of sp"
  let ?f = "\<lparr>dec_peer = peer_id peer0, dec_value_id = cert_value_id cert, dec_height = cert_height cert\<rparr>"
  let ?ds = "replicate (Suc m) (Proposed ?pv) @ [Finalized ?f]"
  let ?w1 = "push_network (concat (map (proposal_envelopes self sp) (peers (initial_validator_set params))))
       (push_decisions (replicate (Suc m) (Proposed ?pv)) w)"
  have w1: "handle_publish self (SignedProposal sp) params w = (Inr (Inr Continue), ?w1)"
    using publish_proposal_loop[OF assms(1,2)] m by (simp add: handle_publish_def act_simps)
  obtain h' where h': "increment oc (cert_height cert) = Inr h'" using increment_exact[OF assms(8)] by metis
  then obtain w2 where w2: "handle_decide oc peer0 cert params' ?w1 = (Inr (Inr Continue), w2)"
      "items (decision_steps w2) = ?ds"
    using assms(1-3) by (simp add: handle_decide_def act_simps Let_def) (simp add: push_network_def push_decisions_def)
  let ?c1 = "\<lparr>decisions = [pv_height ?pv \<mapsto> pv_value ?pv], to_task = tt\<rparr>"
  have "foreach (replicate (Suc m) (Proposed ?pv)) consumer_handle (consumer_new tt) = (Inr (), ?c1)"
    unfolding consumer_proposed_repeat by (simp add: consumer_handle_Proposed consumer_new_def)
  moreover have "consumer_handle (Finalized ?f) ?c1 =
      (Inr (), ?c1\<lparr>to_task := tt\<lparr>items := items tt @ [transactions (prop_value (message sp))]\<rparr>\<rparr>)"
    using assms(4,6,7) by (simp add: consumer_handle_def proposed_value_of_def Let_def)
  ultimately have "foreach (items (decision_steps w2)) consumer_handle (consumer_new tt) =
      (Inr (), ?c1\<lparr>to_task := tt\<lparr>items := items tt @ [transactions (prop_value (message sp))]\<rparr>\<rparr>)"
    unfolding w2(2) foreach_append by (simp add: act_simps)
  from consumer_run_foreach[OF this] obtain ch' where
    "consumer_run (decision_steps w2) (consumer_new tt) =
      (if tx_alive (decision_steps w2) then Awaiting else Stopped, ch',
       ?c1\<lparr>to_task := tt\<lparr>items := items tt @ [transactions (prop_value (message sp))]\<rparr>\<rparr>)" by auto
  with w1 w2(1) show ?thesis by (cases "tx_alive (decision_steps w2)") auto
qed

theorem published_and_decided_is_relayed_witness:
  "\<exists>w1 w2 r ch' c. handle_publish \<lparr>peer_id = BasePeerAddress 2\<rparr> (SignedProposal toy_proposal) (toy_params 4 2) (toy_world [])
       = (Inr (Inr Continue), w1) \<and>
     handle_decide True \<lparr>peer_id = BasePeerAddress 0\<rparr> \<lparr>cert_height = BaseHeight 3, cert_value_id = BaseValueId 1\<rparr>
       (toy_params 4 0) w1 = (Inr (Inr Continue), w2) \<and>
     consumer_run (decision_steps w2) (consumer_new new_channel) = (r, ch', c) \<and> items (to_task c) = [[42]]"
proof -
  have "items (decision_steps (toy_world ([] :: nat BaseValue list))) = []" "rx_alive (new_channel :: nat list channel)"
    "items (new_channel :: nat list channel) = []"
    by (simp_all add: toy_world_def new_channel_def)
  moreover have "prop_height (message toy_proposal) = BaseHeight 3" "transactions (prop_value (message toy_proposal)) = [42]"
    by (simp_all add: toy_proposal_def new_proposal_def)
  ultimately show ?thesis
    using published_and_decided_is_relayed[OF toy_world_alive, of "[]" new_channel "toy_params 4 2" "\<lparr>peer_id = BasePeerAddress 0\<rparr>"
        "\<lparr>cert_height = BaseHeight 3, cert_value_id = BaseValueId 1\<rparr>" toy_proposal "\<lparr>peer_id = BasePeerAddress 2\<rparr>" True "toy_params 4 0"]
    by (fastforce simp: toy_peers)
qed

text \<open>C33: the launch: the storage starts as the empty chain on the latest header of the database, or on the
  genesis header when there is none or it cannot be read; four peers are started, each with the message that
  starts height 0 waiting for it; the consumer knows no proposal; the task is idle and holds the pipeline's
  events.\<close>

theorem launch_starts_node:
  assumes "lib_keeps_params lib"
  shows "\<exists>n. launch E rng lib latest_header genesis events = Inr n \<and>
    chain_repr R (case latest_header of Inr (Some header) \<Rightarrow> header | _ \<Rightarrow> genesis) [] (storage (task n)) \<and>
    length (states (chain_sys n)) = 4 \<and>
    map (addr_u32 \<circ> destination) (items (network (world (chain_sys n)))) = [0, 1, 2, 3] \<and>
    consumed n = Map.empty \<and> insert_task (task n) = None \<and> work (task n) = [] \<and>
    pipe_line_events (task n) = Some events"
proof -
  let ?n = "launched E rng lib (initial_header latest_header genesis) events"
  have "chain_repr R (initial_header latest_header genesis) [] (storage (task ?n))"
    by (simp add: launched_def chain_repr_new)
  then show ?thesis
    unfolding launch_ok[OF assms] initial_header_def
    by (intro exI[of _ ?n])
      (simp add: launched_def initial_header_def started_system_def Let_def start_envelope_def upt_rec work_def new_channel_def)
qed

theorem launch_starts_node_witness:
  "\<exists>n. launch toy_ed25519 [] deciding_lib (Inl (ProviderError ''db'')) toy_genesis 3 = Inr (n :: (nat, Params, unit) node) \<and>
     chain_repr toy_reth toy_genesis [] (storage (task n))"
  using launch_starts_node[OF deciding_lib_keeps, of toy_ed25519 "[]" "Inl (ProviderError ''db'')" toy_genesis 3 toy_reth] by auto

text \<open>C9: consensus is offered every value at most once and in order: in every reachable state of the node,
  the values that were proposed and wait in the network, followed by the one that waits in the proposals
  channel, carry increasing identifiers, all of them identifiers of values that the block builder has had
  accepted, and the builder's counter is the number of those.\<close>

theorem values_reach_consensus_in_order:
  assumes "lib_keeps_params lib" and "launch E rng lib latest_header genesis events = Inr n0"
    and "node_run oc E lib R X spec ds n0 n"
  shows "\<exists>m. value_counter (block_builder n) = of_nat m \<and>
    subseq (map value_id_u64 (proposed_values (items (network (world (chain_sys n)))) @
                              items (proposals (world (chain_sys n))))) (map of_nat [0..<m]) \<and>
    length (items (proposals (world (chain_sys n)))) \<le> 1"
proof -
  have n0: "n0 = launched E rng lib (initial_header latest_header genesis) events"
    using assms(2) unfolding launch_ok[OF assms(1)] by simp
  have "sim_inv 4 (chain_sys n0)" unfolding n0 launched_def by (simp add: started_inv)
  moreover have "values_inv 0 n0" unfolding n0 by (rule launched_values)
  ultimately obtain m where "sim_inv 4 (chain_sys n)" "values_inv m n" using node_run_values[OF assms(3)] by blast
  then show ?thesis
    by (intro exI[of _ m]) (simp add: values_inv_def waiting_values_def builder_ok_def sim_inv_def world_ok_def)
qed

theorem values_reach_consensus_in_order_witness:
  "\<exists>n m. node_run True toy_ed25519 deciding_lib toy_reth toy_executor (toy_spec False) [] toy_node n \<and>
     map value_id_u64 (items (proposals (world (chain_sys n)))) = [0] \<and>
     value_counter (block_builder n) = 1 \<and> value_counter (block_builder n) = of_nat m"
proof -
  let ?v = "\<lparr>value_id_u64 = 0, transactions = [5]\<rparr> :: nat BaseValue"
  let ?n1 = "toy_node\<lparr>block_builder := builder_collect [5] (block_builder toy_node)\<rparr>"
  let ?b = "\<lparr>value_counter = 1, in_hand = None\<rparr> :: nat builder"
  let ?ch = "new_channel\<lparr>items := [?v]\<rparr>"
  let ?n2 = "?n1\<lparr>block_builder := ?b, chain_sys := (chain_sys ?n1)\<lparr>world := (world (chain_sys ?n1))\<lparr>proposals := ?ch\<rparr>\<rparr>\<rparr>"
  have run1: "node_run True toy_ed25519 deciding_lib toy_reth toy_executor (toy_spec False) [] toy_node ?n1"
    by (rule node_run_step[OF node_run.none node_move.collect]) simp
  have "builder_send True (block_builder ?n1) (proposals (world (chain_sys ?n1))) = (Inr ?b, ?ch)"
    by (simp add: toy_node_def launched_def builder_new_def builder_collect_def builder_send_def started_system_def
        Let_def new_channel_def chan_send_bounded_def checked_plus_def)
  then have run2: "node_run True toy_ed25519 deciding_lib toy_reth toy_executor (toy_spec False) [] toy_node ?n2"
    by (rule node_run_step[OF run1 node_move.offer]) simp
  from values_reach_consensus_in_order[OF deciding_lib_keeps toy_node_launch run2] run2 show ?thesis
    by (intro exI[of _ ?n2]) auto
qed

end
